theory Spec2Isabelle
  imports
    Main
    "HOL-Library.Sublist"
    "HOL-Library.Char_ord"
    "HOL-Library.List_Lexorder"
    "HOL-Library.AList"
begin

section \<open>Go strings and paths\<close>

text \<open>
  A Go string is a sequence of bytes; it is modelled as a \<open>string\<close> (a list of 8-bit
  characters). The functions of package \<open>strings\<close> and \<open>path/filepath\<close> that the provider
  calls are written out here for Unix paths (separator \<open>/\<close>, no volume names).
\<close>

definition HasPrefix :: "string \<Rightarrow> string \<Rightarrow> bool" where
  "HasPrefix s p = prefix p s"

definition HasSuffix :: "string \<Rightarrow> string \<Rightarrow> bool" where
  "HasSuffix s x = suffix x s"

definition TrimSuffix :: "string \<Rightarrow> string \<Rightarrow> string" where
  "TrimSuffix s x = (if suffix x s then take (length s - length x) s else s)"

text \<open>\<open>strings.Index(s, "=")\<close> for a one-byte needle: the first position, or \<open>-1\<close>.\<close>

definition Index :: "string \<Rightarrow> char \<Rightarrow> int" where
  "Index s c = (if c \<in> set s then int (length (takeWhile (\<lambda>x. x \<noteq> c) s)) else - 1)"

text \<open>\<open>strings.Trim(s, cutset)\<close> for a cutset of one-byte characters.\<close>

definition Trim :: "string \<Rightarrow> string \<Rightarrow> string" where
  "Trim s cutset =
     rev (dropWhile (\<lambda>c. c \<in> set cutset) (rev (dropWhile (\<lambda>c. c \<in> set cutset) s)))"

text \<open>
  \<open>strings.TrimSpace\<close> removes leading and trailing white space as Unicode defines it.
  \<open>space_runes\<close> lists the UTF-8 encodings of the code points with the White_Space
  property: U+0009..U+000D, U+0020, U+0085, U+00A0, U+1680, U+2000..U+200A, U+2028,
  U+2029, U+202F, U+205F, U+3000.
\<close>

definition space_runes :: "string list" where
  "space_runes =
     [[CHR 0x09], [CHR 0x0A], [CHR 0x0B], [CHR 0x0C], [CHR 0x0D], [CHR 0x20],
      [CHR 0xC2, CHR 0x85], [CHR 0xC2, CHR 0xA0],
      [CHR 0xE1, CHR 0x9A, CHR 0x80],
      [CHR 0xE2, CHR 0x80, CHR 0x80], [CHR 0xE2, CHR 0x80, CHR 0x81],
      [CHR 0xE2, CHR 0x80, CHR 0x82], [CHR 0xE2, CHR 0x80, CHR 0x83],
      [CHR 0xE2, CHR 0x80, CHR 0x84], [CHR 0xE2, CHR 0x80, CHR 0x85],
      [CHR 0xE2, CHR 0x80, CHR 0x86], [CHR 0xE2, CHR 0x80, CHR 0x87],
      [CHR 0xE2, CHR 0x80, CHR 0x88], [CHR 0xE2, CHR 0x80, CHR 0x89],
      [CHR 0xE2, CHR 0x80, CHR 0x8A],
      [CHR 0xE2, CHR 0x80, CHR 0xA8], [CHR 0xE2, CHR 0x80, CHR 0xA9],
      [CHR 0xE2, CHR 0x80, CHR 0xAF],
      [CHR 0xE2, CHR 0x81, CHR 0x9F],
      [CHR 0xE3, CHR 0x80, CHR 0x80]]"

definition leading_space :: "string \<Rightarrow> nat" where
  "leading_space s = (case find (\<lambda>r. prefix r s) space_runes of None \<Rightarrow> 0 | Some r \<Rightarrow> length r)"

definition trailing_space :: "string \<Rightarrow> nat" where
  "trailing_space s = (case find (\<lambda>r. suffix r s) space_runes of None \<Rightarrow> 0 | Some r \<Rightarrow> length r)"

lemma leading_space_le: "leading_space s \<le> length s"
  by (auto simp: leading_space_def find_Some_iff prefix_def split: option.splits)

lemma trailing_space_le: "trailing_space s \<le> length s"
  by (auto simp: trailing_space_def find_Some_iff suffix_def split: option.splits)

function TrimLeftSpace :: "string \<Rightarrow> string" where
  "TrimLeftSpace s =
     (if leading_space s = 0 then s else TrimLeftSpace (drop (leading_space s) s))"
  by pat_completeness auto
termination
proof (relation "measure length")
  show "wf (measure length)" by simp
next
  fix s :: string
  assume "leading_space s \<noteq> 0"
  moreover have "leading_space s \<le> length s" by (rule leading_space_le)
  ultimately show "(drop (leading_space s) s, s) \<in> measure length" by simp
qed

function TrimRightSpace :: "string \<Rightarrow> string" where
  "TrimRightSpace s =
     (if trailing_space s = 0 then s
      else TrimRightSpace (take (length s - trailing_space s) s))"
  by pat_completeness auto
termination
proof (relation "measure length")
  show "wf (measure length)" by simp
next
  fix s :: string
  assume "trailing_space s \<noteq> 0"
  moreover have "trailing_space s \<le> length s" by (rule trailing_space_le)
  ultimately show "(take (length s - trailing_space s) s, s) \<in> measure length" by simp
qed

declare TrimLeftSpace.simps [simp del]
declare TrimRightSpace.simps [simp del]

definition TrimSpace :: "string \<Rightarrow> string" where
  "TrimSpace s = TrimRightSpace (TrimLeftSpace s)"

subsection \<open>path/filepath\<close>

primrec split_sep :: "string \<Rightarrow> string list" where
  "split_sep [] = [[]]"
| "split_sep (c # cs) =
     (if c = CHR ''/'' then [] # split_sep cs
      else (case split_sep cs of [] \<Rightarrow> [[c]] | x # xs \<Rightarrow> (c # x) # xs))"

fun join_sep :: "string list \<Rightarrow> string" where
  "join_sep [] = []"
| "join_sep [x] = x"
| "join_sep (x # y # ys) = x @ ''/'' @ join_sep (y # ys)"

text \<open>
  One step of \<open>filepath.Clean\<close> on the path elements read so far (kept as a stack, the
  last element first): empty and \<open>.\<close> elements are dropped; \<open>..\<close> removes the element
  before it, is dropped at the root, and is kept where a relative path has nothing left
  to remove.
\<close>

definition clean_step :: "bool \<Rightarrow> string list \<Rightarrow> string \<Rightarrow> string list" where
  "clean_step rooted st e =
     (if e = [] \<or> e = ''.'' then st
      else if e = ''..'' then
        (case st of
           [] \<Rightarrow> if rooted then [] else [''..'']
         | t # ts \<Rightarrow> if t = ''..'' then e # st else ts)
      else e # st)"

definition Clean :: "string \<Rightarrow> string" where
  "Clean p =
     (if p = [] then ''.''
      else
        let rooted = (hd p = CHR ''/'');
            body = join_sep (rev (foldl (clean_step rooted) [] (split_sep p)))
        in if rooted then CHR ''/'' # body
           else if body = [] then ''.'' else body)"

text \<open>\<open>filepath.Join\<close>: empty leading elements are ignored, the rest is joined and cleaned.\<close>

definition Join :: "string list \<Rightarrow> string" where
  "Join elem =
     (case dropWhile (\<lambda>e. e = []) elem of
        [] \<Rightarrow> []
      | es \<Rightarrow> Clean (join_sep es))"

definition Base :: "string \<Rightarrow> string" where
  "Base p =
     (if p = [] then ''.''
      else
        let q = rev (dropWhile (\<lambda>c. c = CHR ''/'') (rev p))
        in if q = [] then ''/'' else rev (takeWhile (\<lambda>c. c \<noteq> CHR ''/'') (rev q)))"

definition Dir :: "string \<Rightarrow> string" where
  "Dir p = Clean (rev (dropWhile (\<lambda>c. c \<noteq> CHR ''/'') (rev p)))"

text \<open>
  \<open>path_under r k\<close>: the cleaned path \<open>k\<close> lies strictly below the cleaned directory
  path \<open>r\<close>.
\<close>

definition path_under :: "string \<Rightarrow> string \<Rightarrow> bool" where
  "path_under r k =
     (if r = ''/'' then prefix ''/'' k \<and> k \<noteq> ''/''
      else if r = ''.'' then
        k \<noteq> [] \<and> k \<noteq> ''.'' \<and> \<not> prefix ''/'' k \<and> k \<noteq> ''..'' \<and> \<not> prefix ''../'' k
      else prefix (r @ ''/'') k \<and> k \<noteq> r @ ''/'')"

text \<open>The pattern metacharacters of \<open>filepath.Glob\<close> on Unix.\<close>

definition hasMeta :: "string \<Rightarrow> bool" where
  "hasMeta p = (\<exists>c \<in> set p. c \<in> {CHR ''*'', CHR ''?'', CHR ''['', CHR 0x5C})"

section \<open>Values of the plugin framework\<close>

text \<open>
  \<open>types.String\<close> and \<open>types.Bool\<close> are null, unknown or known; \<open>ValueString\<close> and
  \<open>ValueBool\<close> return the zero value for the first two.
\<close>

datatype tfstring = StringNull | StringUnknown | StringValue string

fun IsNull :: "tfstring \<Rightarrow> bool" where
  "IsNull StringNull = True"
| "IsNull _ = False"

fun IsUnknown :: "tfstring \<Rightarrow> bool" where
  "IsUnknown StringUnknown = True"
| "IsUnknown _ = False"

fun ValueString :: "tfstring \<Rightarrow> string" where
  "ValueString (StringValue s) = s"
| "ValueString _ = []"

datatype tfbool = BoolNull | BoolUnknown | BoolValue bool

fun BoolIsNull :: "tfbool \<Rightarrow> bool" where
  "BoolIsNull BoolNull = True"
| "BoolIsNull _ = False"

fun ValueBool :: "tfbool \<Rightarrow> bool" where
  "ValueBool (BoolValue b) = b"
| "ValueBool _ = False"

section \<open>Go errors\<close>

text \<open>
  Error values are modelled with the structure the provider inspects: plain messages,
  wrappers made by \<open>fmt.Errorf\<close> with \<open>%w\<close>, the operating system's path errors and
  the link error of \<open>os.Rename\<close> (operation, old and new path), the execution error of \<open>text/template\<close> (which \<open>Execute\<close> returns as a value of type
  \<open>template.ExecError\<close>; \<open>ExecErrorPtr\<close> stands for a pointer to one), and a run-time
  panic.
\<close>

datatype errno = ENOENT | EIO | EISDIR | ENOTDIR | ENOTEMPTY | EINVAL

fun errno_text :: "errno \<Rightarrow> string" where
  "errno_text ENOENT = ''no such file or directory''"
| "errno_text EIO = ''input/output error''"
| "errno_text EISDIR = ''is a directory''"
| "errno_text ENOTDIR = ''not a directory''"
| "errno_text ENOTEMPTY = ''directory not empty''"
| "errno_text EINVAL = ''invalid argument''"

datatype go_error =
    ErrorString string
  | WrapError string go_error
  | PathError string string errno
  | LinkError string string string errno
  | ExecError string go_error
  | ExecErrorPtr string go_error
  | RuntimePanic string

fun Error :: "go_error \<Rightarrow> string" where
  "Error (ErrorString s) = s"
| "Error (WrapError s e) = s"
| "Error (PathError opn p en) = opn @ '' '' @ p @ '': '' @ errno_text en"
| "Error (LinkError opn old new en) = opn @ '' '' @ old @ '' '' @ new @ '': '' @ errno_text en"
| "Error (ExecError n e) = Error e"
| "Error (ExecErrorPtr n e) = Error e"
| "Error (RuntimePanic s) = s"

text \<open>\<open>fmt.Errorf(pre + "%w", err)\<close>.\<close>

definition Errorf_w :: "string \<Rightarrow> go_error \<Rightarrow> go_error" where
  "Errorf_w pre e = WrapError (pre @ Error e) e"

text \<open>\<open>errors.Is(err, os.ErrNotExist)\<close>, following \<open>Unwrap\<close>.\<close>

fun Is_ErrNotExist :: "go_error \<Rightarrow> bool" where
  "Is_ErrNotExist (PathError opn p en) = (en = ENOENT)"
| "Is_ErrNotExist (LinkError opn old new en) = (en = ENOENT)"
| "Is_ErrNotExist (WrapError s e) = Is_ErrNotExist e"
| "Is_ErrNotExist (ExecError n e) = Is_ErrNotExist e"
| "Is_ErrNotExist (ExecErrorPtr n e) = Is_ErrNotExist e"
| "Is_ErrNotExist _ = False"

text \<open>
  \<open>errors.As(err, &execErr)\<close> with \<open>execErr\<close> of type \<open>*template.ExecError\<close>: the first
  error of the chain whose dynamic type is the pointer type. A value of type
  \<open>template.ExecError\<close> is not assignable to it and is only unwrapped.
\<close>

fun As_ExecErrorPtr :: "go_error \<Rightarrow> (string \<times> go_error) option" where
  "As_ExecErrorPtr (ExecErrorPtr n e) = Some (n, e)"
| "As_ExecErrorPtr (WrapError s e) = As_ExecErrorPtr e"
| "As_ExecErrorPtr (ExecError n e) = As_ExecErrorPtr e"
| "As_ExecErrorPtr _ = None"

section \<open>The file system and the process environment\<close>

text \<open>
  The disk maps cleaned paths to nodes: a regular file with its bytes, modification time
  and permission bits, or a directory. A directory also exists where a path has entries
  below it. \<open>faulty\<close> holds the paths on which the operating system fails every operation
  with an I/O error. Symbolic links are not modelled.
\<close>

datatype fnode = RegFile string nat nat | DirNode nat

record disk =
  entries :: "(string \<times> fnode) list"
  faulty :: "string set"

definition lookup :: "disk \<Rightarrow> string \<Rightarrow> fnode option" where
  "lookup d p = (if p = [] then None else map_of (entries d) (Clean p))"

definition has_children :: "disk \<Rightarrow> string \<Rightarrow> bool" where
  "has_children d p = list_ex (\<lambda>kv. path_under (Clean p) (fst kv)) (entries d)"

definition is_dir :: "disk \<Rightarrow> string \<Rightarrow> bool" where
  "is_dir d p =
     (p \<noteq> [] \<and>
      (case lookup d p of
         Some (DirNode m) \<Rightarrow> True
       | Some (RegFile c m pm) \<Rightarrow> False
       | None \<Rightarrow> has_children d p))"

definition path_exists :: "disk \<Rightarrow> string \<Rightarrow> bool" where
  "path_exists d p = (lookup d p \<noteq> None \<or> is_dir d p)"

text \<open>
  A path that leads through a regular file cannot be reached: the system calls on it fail
  with \<open>ENOTDIR\<close>.
\<close>

definition under_file :: "disk \<Rightarrow> string \<Rightarrow> bool" where
  "under_file d p =
     list_ex (\<lambda>k. path_under k (Clean p) \<and>
                  (case map_of (entries d) k of Some (RegFile c m pm) \<Rightarrow> True | _ \<Rightarrow> False))
       (map fst (entries d))"

record FileInfo =
  ModTime :: nat
  Perm :: nat
  fi_IsDir :: bool

record DirEntry =
  de_Name :: string
  de_IsDir :: bool

text \<open>
  Every call the provider makes to the file system, to another process or to the network
  leaves an event. \<open>environ\<close> is what \<open>os.Environ\<close> returns.
\<close>

datatype event =
    EvStat string
  | EvReadFile string
  | EvOpen string
  | EvWriteFile string string nat
  | EvRename string string
  | EvGlob string
  | EvWalkDir string
  | EvMkdirTemp string string
  | EvRemoveAll string
  | EvExec string "string list" string "string list option"
  | EvUpload string string string string

record world =
  dsk :: disk
  io_log :: "event list"
  environ :: "string list"
  now :: nat

definition emit :: "event \<Rightarrow> world \<Rightarrow> world" where
  "emit e w = w\<lparr>io_log := io_log w @ [e]\<rparr>"

subsection \<open>Reading\<close>

definition stat_of :: "disk \<Rightarrow> string \<Rightarrow> go_error + FileInfo" where
  "stat_of d p =
     (if p \<noteq> [] \<and> Clean p \<in> faulty d then Inl (PathError ''stat'' p EIO)
      else if under_file d p then Inl (PathError ''stat'' p ENOTDIR)
      else
        (case lookup d p of
           Some (RegFile c m pm) \<Rightarrow> Inr \<lparr>ModTime = m, Perm = pm, fi_IsDir = False\<rparr>
         | Some (DirNode m) \<Rightarrow> Inr \<lparr>ModTime = m, Perm = 493, fi_IsDir = True\<rparr>
         | None \<Rightarrow>
             if is_dir d p then Inr \<lparr>ModTime = 0, Perm = 493, fi_IsDir = True\<rparr>
             else Inl (PathError ''stat'' p ENOENT)))"

definition os_Stat :: "string \<Rightarrow> world \<Rightarrow> (go_error + FileInfo) \<times> world" where
  "os_Stat p w = (stat_of (dsk w) p, emit (EvStat p) w)"

text \<open>Opening a path and reading all of it (\<open>os.ReadFile\<close>; \<open>os.Open\<close> with \<open>io.Copy\<close>).\<close>

definition read_of :: "disk \<Rightarrow> string \<Rightarrow> go_error + string" where
  "read_of d p =
     (if p \<noteq> [] \<and> Clean p \<in> faulty d then Inl (PathError ''open'' p EIO)
      else if under_file d p then Inl (PathError ''open'' p ENOTDIR)
      else
        (case lookup d p of
           Some (RegFile c m pm) \<Rightarrow> Inr c
         | Some (DirNode m) \<Rightarrow> Inl (PathError ''read'' p EISDIR)
         | None \<Rightarrow>
             if is_dir d p then Inl (PathError ''read'' p EISDIR)
             else Inl (PathError ''open'' p ENOENT)))"

definition os_ReadFile :: "string \<Rightarrow> world \<Rightarrow> (go_error + string) \<times> world" where
  "os_ReadFile p w = (read_of (dsk w) p, emit (EvReadFile p) w)"

definition os_Open_Copy :: "string \<Rightarrow> world \<Rightarrow> (go_error + string) \<times> world" where
  "os_Open_Copy p w = (read_of (dsk w) p, emit (EvOpen p) w)"

subsection \<open>Writing\<close>


definition write_of :: "disk \<Rightarrow> nat \<Rightarrow> string \<Rightarrow> string \<Rightarrow> nat \<Rightarrow> go_error + disk" where
  "write_of d t p bytes pm =
     (if p = [] then Inl (PathError ''open'' p ENOENT)
      else if Clean p \<in> faulty d then Inl (PathError ''open'' p EIO)
      else if under_file d p then Inl (PathError ''open'' p ENOTDIR)
      else if last p = CHR ''/'' \<or> is_dir d p then Inl (PathError ''open'' p EISDIR)
      else if \<not> is_dir d (Dir p) then Inl (PathError ''open'' p ENOENT)
      else
        Inr (d\<lparr>entries :=
                 AList.update (Clean p)
                   (case lookup d p of
                      Some (RegFile c m pm0) \<Rightarrow> RegFile bytes t pm0
                    | _ \<Rightarrow> RegFile bytes t pm)
                   (entries d)\<rparr>))"

definition os_WriteFile :: "string \<Rightarrow> string \<Rightarrow> nat \<Rightarrow> world \<Rightarrow> go_error option \<times> world" where
  "os_WriteFile p bytes pm w =
     (case write_of (dsk w) (now w) p bytes pm of
        Inl e \<Rightarrow> (Some e, emit (EvWriteFile p bytes pm) w)
      | Inr d \<Rightarrow> (None, emit (EvWriteFile p bytes pm) (w\<lparr>dsk := d\<rparr>)))"

text \<open>
  \<open>os.Rename\<close> as \<open>rename(2)\<close>, its errors being link errors: a regular file replaces a
  regular file or takes a free name; a directory moves with everything below it, onto a free name or an empty
  directory.
\<close>

definition move_key :: "string \<Rightarrow> string \<Rightarrow> string \<Rightarrow> string" where
  "move_key src dst k =
     (if k = src then dst
      else if path_under src k then dst @ drop (length src) k
      else k)"

definition rename_of :: "disk \<Rightarrow> string \<Rightarrow> string \<Rightarrow> go_error + disk" where
  "rename_of d src dst =
     (if src = [] \<or> dst = [] then Inl (LinkError ''rename'' src dst ENOENT)
      else if Clean src \<in> faulty d \<or> Clean dst \<in> faulty d then Inl (LinkError ''rename'' src dst EIO)
      else if under_file d src \<or> under_file d dst then Inl (LinkError ''rename'' src dst ENOTDIR)
      else if \<not> is_dir d (Dir dst) then Inl (LinkError ''rename'' src dst ENOENT)
      else
        (case lookup d src of
           Some (RegFile c m pm) \<Rightarrow>
             if is_dir d dst then Inl (LinkError ''rename'' src dst EISDIR)
             else Inr (d\<lparr>entries :=
                          AList.update (Clean dst) (RegFile c m pm)
                            (AList.delete (Clean src) (entries d))\<rparr>)
         | _ \<Rightarrow>
             if \<not> is_dir d src then Inl (LinkError ''rename'' src dst ENOENT)
             else if Clean dst = Clean src \<or> path_under (Clean src) (Clean dst) then
               Inl (LinkError ''rename'' src dst EINVAL)
             else if lookup d dst \<noteq> None \<and> \<not> is_dir d dst then
               Inl (LinkError ''rename'' src dst ENOTDIR)
             else if has_children d dst then Inl (LinkError ''rename'' src dst ENOTEMPTY)
             else
               Inr (d\<lparr>entries :=
                        map (\<lambda>kv. (move_key (Clean src) (Clean dst) (fst kv), snd kv))
                          (AList.delete (Clean dst) (entries d))\<rparr>)))"

definition os_Rename :: "string \<Rightarrow> string \<Rightarrow> world \<Rightarrow> go_error option \<times> world" where
  "os_Rename src dst w =
     (case rename_of (dsk w) src dst of
        Inl e \<Rightarrow> (Some e, emit (EvRename src dst) w)
      | Inr d \<Rightarrow> (None, emit (EvRename src dst) (w\<lparr>dsk := d\<rparr>)))"

text \<open>
  \<open>os.RemoveAll\<close> removes the path and everything below it; on the empty path it does
  nothing. The provider discards its error, and the removal is modelled as effective.
\<close>

definition remove_all_of :: "disk \<Rightarrow> string \<Rightarrow> disk" where
  "remove_all_of d p =
     (if p = [] then d
      else d\<lparr>entries :=
               filter (\<lambda>kv. fst kv \<noteq> Clean p \<and> \<not> path_under (Clean p) (fst kv)) (entries d)\<rparr>)"

definition os_RemoveAll :: "string \<Rightarrow> world \<Rightarrow> world" where
  "os_RemoveAll p w = emit (EvRemoveAll p) (w\<lparr>dsk := remove_all_of (dsk w) p\<rparr>)"

section \<open>The provider's data model\<close>

record LPKBuildSourceLocalModel =
  Path :: tfstring

record LPKBuildSourceGitModel =
  URL :: tfstring
  Ref :: tfstring
  Subpath :: tfstring

record LPKBuildSourceModel =
  Local :: "LPKBuildSourceLocalModel option"
  Git :: "LPKBuildSourceGitModel option"

record LPKBuildBuildModel =
  Command :: tfstring

record LPKBuildPublishModel =
  Enabled :: tfbool
  pub_Name :: tfstring
  pub_Version :: tfstring

text \<open>
  A Go map is represented by an association list with distinct keys, read with
  \<open>map_of\<close>; its length is the number of entries, and the nil map and the empty map are
  both the empty list. A loop over a map visits the entries in an unspecified order;
  the loops of the provider only store each entry into another map, so that the order
  makes no difference.
\<close>

type_synonym ('k, 'v) gomap = "('k \<times> 'v) list"

record LPKBuildEnvModel =
  Variables :: "(string, tfstring) gomap"
  TemplateExtension :: tfstring

record LPKBuildModel =
  ID :: tfstring
  Source :: "LPKBuildSourceModel option"
  Build :: "LPKBuildBuildModel option"
  Publish :: "LPKBuildPublishModel option"
  Env :: "LPKBuildEnvModel option"
  LPKURL :: tfstring
  SHA256 :: tfstring
  AppID :: tfstring
  Version :: tfstring
  LocalPath :: tfstring
  UploadID :: tfstring

record lpkMetadata =
  meta_AppID :: string
  meta_Version :: string
  meta_SHA256 :: string
  meta_Name :: string

record manifestYAML =
  man_AppID :: string
  man_Version :: string
  man_Name :: string

text \<open>The fields of the upload response that the provider reads.\<close>

record uploadResult =
  up_ID :: string
  up_DownloadURL :: string
  up_SHA256 :: string
  up_Version :: string

definition defaultTemplateExtension :: string where
  "defaultTemplateExtension = ''.tmpl''"

section \<open>External collaborators\<close>

text \<open>
  A parsed template, for the templates made of literal text, field actions \<open>{{.KEY}}\<close>,
  the actions \<open>{{index . "KEY"}}\<close>, and conditionals on a field,
  \<open>{{if .KEY}} ... {{else}} ... {{end}}\<close> (without \<open>{{else}}\<close> the second list is
  empty). A field node and a conditional carry the prefix that \<open>text/template\<close> puts
  before the message of an execution error at that node
  (\<open>template: NAME:LINE:COL: executing "NAME" at <.KEY>: \<close>).
\<close>

datatype tnode =
    TextNode string
  | FieldNode string string
  | IndexNode string
  | IfNode string string "tnode list" "tnode list"

text \<open>
  What the provider takes from outside its own code: the SHA-256 digest in hexadecimal,
  the YAML decoder, the template parser, process execution (a command with its
  arguments, working directory and environment may change the disk and may fail), the
  name \<open>os.MkdirTemp\<close> picks, \<open>filepath.Glob\<close> on patterns other than
  \<open>DIR/*SUFFIX\<close>, and the registry client's \<open>UploadLPK\<close> (user, name, version, file).
\<close>

record sys =
  sha256_hex :: "string \<Rightarrow> string"
  yaml_Unmarshal :: "string \<Rightarrow> go_error + manifestYAML"
  template_Parse :: "string \<Rightarrow> string \<Rightarrow> go_error + tnode list"
  exec_Run :: "string \<Rightarrow> string list \<Rightarrow> string \<Rightarrow> string list option \<Rightarrow> disk \<Rightarrow> go_error option \<times> disk"
  mkdir_temp :: "string \<Rightarrow> string \<Rightarrow> disk \<Rightarrow> go_error + string"
  glob_other :: "string \<Rightarrow> disk \<Rightarrow> go_error + string list"
  UploadLPK :: "string \<Rightarrow> string \<Rightarrow> string \<Rightarrow> string \<Rightarrow> disk \<Rightarrow> go_error + uploadResult"

definition os_MkdirTemp :: "sys \<Rightarrow> string \<Rightarrow> string \<Rightarrow> world \<Rightarrow> (go_error + string) \<times> world" where
  "os_MkdirTemp S dir pat w =
     (case mkdir_temp S dir pat (dsk w) of
        Inl e \<Rightarrow> (Inl e, emit (EvMkdirTemp dir pat) w)
      | Inr tmp \<Rightarrow>
          (Inr tmp,
           emit (EvMkdirTemp dir pat)
             (w\<lparr>dsk := (dsk w)\<lparr>entries :=
                    AList.update (Clean tmp) (DirNode (now w)) (entries (dsk w))\<rparr>\<rparr>)))"

text \<open>\<open>exec.Cmd.Run\<close> of a command in a directory, with an environment when one is set.\<close>

definition Cmd_Run ::
  "sys \<Rightarrow> string \<Rightarrow> string list \<Rightarrow> string \<Rightarrow> string list option \<Rightarrow> world \<Rightarrow> go_error option \<times> world"
where
  "Cmd_Run S name args dir env w =
     (case exec_Run S name args dir env (dsk w) of
        (r, d) \<Rightarrow> (r, emit (EvExec name args dir env) (w\<lparr>dsk := d\<rparr>)))"

text \<open>
  \<open>filepath.Glob\<close> of a pattern \<open>DIR/*SUFFIX\<close> with no metacharacter in \<open>DIR\<close> or
  \<open>SUFFIX\<close>: the entries directly in \<open>DIR\<close> whose name ends with \<open>SUFFIX\<close>, in name
  order; I/O errors are ignored. The star does not match a separator, so nothing below
  a subdirectory matches. An entry is in \<open>DIR\<close> when a path of the disk leads through
  it: \<open>child_of\<close> takes from a path below \<open>DIR\<close> the entry of \<open>DIR\<close> it starts with.
\<close>

definition child_of :: "string \<Rightarrow> string \<Rightarrow> string" where
  "child_of dir k =
     (let n = (if dir = ''/'' then 1 else if dir = ''.'' then 0 else length dir + 1)
      in take n k @ takeWhile (\<lambda>c. c \<noteq> CHR ''/'') (drop n k))"

definition glob_children :: "disk \<Rightarrow> string \<Rightarrow> string \<Rightarrow> string list" where
  "glob_children d dir sfx =
     sort (remdups (filter (\<lambda>c. suffix sfx (Base c))
                      (map (child_of dir) (filter (path_under dir) (map fst (entries d))))))"

definition glob_of :: "sys \<Rightarrow> disk \<Rightarrow> string \<Rightarrow> go_error + string list" where
  "glob_of S d pattern =
     (let dir = Dir pattern; file = Base pattern
      in if \<not> hasMeta dir \<and> file \<noteq> [] \<and> hd file = CHR ''*'' \<and> \<not> hasMeta (tl file)
         then Inr (if dir \<in> faulty d then [] else glob_children d dir (tl file))
         else glob_other S pattern d)"

definition filepath_Glob :: "sys \<Rightarrow> string \<Rightarrow> world \<Rightarrow> (go_error + string list) \<times> world" where
  "filepath_Glob S pattern w = (glob_of S (dsk w) pattern, emit (EvGlob pattern) w)"

text \<open>
  \<open>filepath.WalkDir\<close>: the callback is called on the root and then on every entry below
  it, a directory before its contents and the names of a directory in byte order. A
  directory that cannot be read is reported to the callback a second time with the
  error, and skipped when the callback returns nil. The walk stops at the first error
  the callback returns (the provider's callback never returns \<open>SkipDir\<close> or
  \<open>SkipAll\<close>). The entries are those on the disk when the walk starts; directories
  without an entry of their own are passed over.
\<close>

type_synonym WalkDirFunc =
  "string \<Rightarrow> DirEntry option \<Rightarrow> go_error option \<Rightarrow> world \<Rightarrow> go_error option \<times> world"

definition walk_paths :: "disk \<Rightarrow> string \<Rightarrow> string list" where
  "walk_paths d root =
     sort_key split_sep (remdups (filter (path_under (Clean root)) (map fst (entries d))))"

function walk_list :: "WalkDirFunc \<Rightarrow> disk \<Rightarrow> string list \<Rightarrow> world \<Rightarrow> go_error option \<times> world" where
  "walk_list fn snap [] w = (None, w)"
| "walk_list fn snap (k # ks) w =
     (case map_of (entries snap) k of
        Some (DirNode m) \<Rightarrow>
          (case fn k (Some \<lparr>de_Name = Base k, de_IsDir = True\<rparr>) None w of
             (Some e, w1) \<Rightarrow> (Some e, w1)
           | (None, w1) \<Rightarrow>
               if k \<in> faulty (dsk w1) then
                 (case fn k (Some \<lparr>de_Name = Base k, de_IsDir = True\<rparr>)
                         (Some (PathError ''open'' k EIO)) w1 of
                    (Some e, w2) \<Rightarrow> (Some e, w2)
                  | (None, w2) \<Rightarrow> walk_list fn snap (filter (\<lambda>x. \<not> path_under k x) ks) w2)
               else walk_list fn snap ks w1)
      | _ \<Rightarrow>
          (case fn k (Some \<lparr>de_Name = Base k, de_IsDir = False\<rparr>) None w of
             (Some e, w1) \<Rightarrow> (Some e, w1)
           | (None, w1) \<Rightarrow> walk_list fn snap ks w1))"
  by pat_completeness auto
termination
  by (relation "measure (\<lambda>(fn, snap, ks, w). length ks)") (auto simp: less_Suc_eq_le)

definition filepath_WalkDir :: "string \<Rightarrow> WalkDirFunc \<Rightarrow> world \<Rightarrow> go_error option \<times> world" where
  "filepath_WalkDir root fn w =
     (let w0 = emit (EvWalkDir root) w; d = dsk w
      in if root = [] \<or> \<not> path_exists d root then
           fn root None (Some (PathError ''lstat'' root ENOENT)) w0
         else if Clean root \<in> faulty d then
           fn root None (Some (PathError ''lstat'' root EIO)) w0
         else if is_dir d root then
           (case fn root (Some \<lparr>de_Name = Base root, de_IsDir = True\<rparr>) None w0 of
              (Some e, w1) \<Rightarrow> (Some e, w1)
            | (None, w1) \<Rightarrow> walk_list fn d (walk_paths d root) w1)
         else fn root (Some \<lparr>de_Name = Base root, de_IsDir = False\<rparr>) None w0)"

section \<open>Source preparation\<close>

text \<open>
  \<open>prepareSource\<close> returns the working directory and the cleanup closure; the closure
  \<open>func() { _ = os.RemoveAll(tmp) }\<close> is represented by the directory it removes.
\<close>

definition prepareSource ::
  "sys \<Rightarrow> LPKBuildSourceModel option \<Rightarrow> world \<Rightarrow> (go_error + string \<times> string option) \<times> world"
where
  "prepareSource S source w =
     (case source of
        None \<Rightarrow> (Inl (ErrorString ''source block is required''), w)
      | Some src \<Rightarrow>
          (case Local src of
             Some l \<Rightarrow>
               if IsNull (Path l) \<or> ValueString (Path l) = [] then
                 (Inl (ErrorString ''local.path must be set''), w)
               else (Inr (ValueString (Path l), None), w)
           | None \<Rightarrow>
               (case Git src of
                  Some g \<Rightarrow>
                    if IsNull (URL g) \<or> ValueString (URL g) = [] then
                      (Inl (ErrorString ''git.url must be set''), w)
                    else
                      (case os_MkdirTemp S [] ''lpk-build-*'' w of
                         (Inl e, w1) \<Rightarrow> (Inl e, w1)
                       | (Inr tmp, w1) \<Rightarrow>
                           (case Cmd_Run S ''git'' [''clone'', ValueString (URL g), ''repo''] tmp None w1 of
                              (Some e, w2) \<Rightarrow>
                                (Inl (Errorf_w ''git clone failed: '' e), os_RemoveAll tmp w2)
                            | (None, w2) \<Rightarrow>
                                let repoPath = Join [tmp, ''repo'']
                                in (case (if \<not> IsNull (Ref g) \<and> ValueString (Ref g) \<noteq> [] then
                                            Cmd_Run S ''git'' [''checkout'', ValueString (Ref g)] repoPath None w2
                                          else (None, w2)) of
                                      (Some e, w3) \<Rightarrow>
                                        (Inl (Errorf_w ''git checkout failed: '' e), os_RemoveAll tmp w3)
                                    | (None, w3) \<Rightarrow>
                                        (Inr (if \<not> IsNull (Subpath g) \<and> ValueString (Subpath g) \<noteq> [] then
                                                Join [repoPath, ValueString (Subpath g)]
                                              else repoPath,
                                              Some tmp), w3))))
                | None \<Rightarrow>
                    (Inl (ErrorString ''either source.local or source.git must be provided''), w))))"

section \<open>Environment variables and templates\<close>

definition collectEnvVars :: "LPKBuildEnvModel option \<Rightarrow> (string, string) gomap" where
  "collectEnvVars env =
     (case env of
        None \<Rightarrow> []
      | Some e \<Rightarrow>
          if length (Variables e) = 0 then []
          else
            foldl (\<lambda>vals kv.
                     if IsNull (snd kv) \<or> IsUnknown (snd kv) then vals
                     else AList.update (fst kv) (ValueString (snd kv)) vals)
              [] (Variables e))"

definition resolveTemplateExtension :: "LPKBuildEnvModel option \<Rightarrow> string" where
  "resolveTemplateExtension env =
     (case env of
        None \<Rightarrow> defaultTemplateExtension
      | Some e \<Rightarrow>
          if IsNull (TemplateExtension e) \<or> IsUnknown (TemplateExtension e) then
            defaultTemplateExtension
          else
            let ext = TrimSpace (ValueString (TemplateExtension e))
            in if ext = [] then defaultTemplateExtension
               else if \<not> HasPrefix ext ''.'' then ''.'' @ ext
               else ext)"

text \<open>
  \<open>%q\<close> of a field name: a field name is an identifier, which \<open>strconv.Quote\<close> only
  puts between double quotes.
\<close>

definition go_quote :: "string \<Rightarrow> string" where
  "go_quote s = CHR 0x22 # s @ [CHR 0x22]"

text \<open>
  \<open>Template.Execute\<close> with the option \<open>missingkey=error\<close> on a \<open>map[string]string\<close>:
  text is copied; a field is replaced by the value of its key, and a key the map does
  not have ends execution with an \<open>ExecError\<close> value; \<open>index\<close> gives the value of the
  key, and the empty string for a key the map does not have; a conditional evaluates its
  field like a field action, and executes its first list when the value is not empty and
  its second list otherwise. Nothing is written to a file before execution ends: the
  output goes to a buffer.
\<close>

fun template_Execute ::
  "string \<Rightarrow> tnode list \<Rightarrow> (string, string) gomap \<Rightarrow> string \<Rightarrow> go_error + string"
where
  "template_Execute name [] vars buf = Inr buf"
| "template_Execute name (TextNode t # ns) vars buf = template_Execute name ns vars (buf @ t)"
| "template_Execute name (FieldNode key ctx # ns) vars buf =
     (case map_of vars key of
        Some v \<Rightarrow> template_Execute name ns vars (buf @ v)
      | None \<Rightarrow>
          Inl (ExecError name (ErrorString (ctx @ ''map has no entry for key '' @ go_quote key))))"
| "template_Execute name (IndexNode key # ns) vars buf =
     template_Execute name ns vars (buf @ (case map_of vars key of Some v \<Rightarrow> v | None \<Rightarrow> []))"
| "template_Execute name (IfNode key ctx yes no # ns) vars buf =
     (case map_of vars key of
        None \<Rightarrow>
          Inl (ExecError name (ErrorString (ctx @ ''map has no entry for key '' @ go_quote key)))
      | Some v \<Rightarrow>
          if v \<noteq> [] then
            (case template_Execute name yes vars buf of
               Inl e \<Rightarrow> Inl e
             | Inr buf' \<Rightarrow> template_Execute name ns vars buf')
          else
            (case template_Execute name no vars buf of
               Inl e \<Rightarrow> Inl e
             | Inr buf' \<Rightarrow> template_Execute name ns vars buf'))"

definition extractMissingKey :: "go_error option \<Rightarrow> string" where
  "extractMissingKey err =
     (case err of
        None \<Rightarrow> []
      | Some e \<Rightarrow>
          let msg = Error e; pre = ''map has no entry for key ''
          in if \<not> HasPrefix msg pre then []
             else Trim (drop (length pre) msg) [CHR 0x22])"

definition formatTemplateError :: "go_error \<Rightarrow> go_error" where
  "formatTemplateError err =
     (case As_ExecErrorPtr err of
        Some (n, inner) \<Rightarrow>
          let missing = extractMissingKey (Some inner)
          in if missing \<noteq> [] then
               ErrorString (''environment variable '' @ missing @ '' not provided'')
             else inner
      | None \<Rightarrow> err)"

definition renderTemplateFile ::
  "sys \<Rightarrow> string \<Rightarrow> string \<Rightarrow> (string, string) gomap \<Rightarrow> world \<Rightarrow> go_error option \<times> world"
where
  "renderTemplateFile S path extension envVars w =
     (case os_ReadFile path w of
        (Inl e, w1) \<Rightarrow> (Some (Errorf_w (''read template '' @ path @ '': '') e), w1)
      | (Inr bytes, w1) \<Rightarrow>
          (case template_Parse S (Base path) bytes of
             Inl e \<Rightarrow> (Some (Errorf_w (''parse template '' @ path @ '': '') e), w1)
           | Inr tmpl \<Rightarrow>
               (case template_Execute (Base path) tmpl envVars [] of
                  Inl e \<Rightarrow>
                    (Some (Errorf_w (''render template '' @ path @ '': '') (formatTemplateError e)), w1)
                | Inr buf \<Rightarrow>
                    let dest = TrimSuffix path extension
                    in (case os_Stat path w1 of
                          (st, w2) \<Rightarrow>
                            (case os_WriteFile dest buf
                                    (case st of Inr info \<Rightarrow> Perm info | Inl e \<Rightarrow> 420) w2 of
                               (Some e, w3) \<Rightarrow>
                                 (Some (Errorf_w (''write rendered template '' @ dest @ '': '') e), w3)
                             | (None, w3) \<Rightarrow> (None, w3))))))"

text \<open>The function \<open>renderTemplateFiles\<close> passes to \<open>filepath.WalkDir\<close>.\<close>

definition render_visit ::
  "sys \<Rightarrow> string \<Rightarrow> (string, string) gomap \<Rightarrow> WalkDirFunc"
where
  "render_visit S ext envVars =
     (\<lambda>path entry walkErr w'.
        case walkErr of
          Some e \<Rightarrow> (Some e, w')
        | None \<Rightarrow>
            (case entry of
               None \<Rightarrow>
                 (Some (RuntimePanic ''invalid memory address or nil pointer dereference''), w')
             | Some en \<Rightarrow>
                 if de_IsDir en then (None, w')
                 else if \<not> HasSuffix (de_Name en) ext then (None, w')
                 else renderTemplateFile S path ext envVars w'))"

definition renderTemplateFiles ::
  "sys \<Rightarrow> string \<Rightarrow> string \<Rightarrow> (string, string) gomap \<Rightarrow> world \<Rightarrow> go_error option \<times> world"
where
  "renderTemplateFiles S baseDir extension envVars w =
     (let ext = (if extension = [] then defaultTemplateExtension else extension)
      in filepath_WalkDir baseDir (render_visit S ext envVars) w)"

section \<open>The artifact builder\<close>

definition readManifest :: "sys \<Rightarrow> string \<Rightarrow> world \<Rightarrow> (go_error + manifestYAML) \<times> world" where
  "readManifest S path w =
     (case os_ReadFile path w of
        (Inl e, w1) \<Rightarrow> (Inl e, w1)
      | (Inr bytes, w1) \<Rightarrow> (yaml_Unmarshal S bytes, w1))"

definition computeSHA :: "sys \<Rightarrow> string \<Rightarrow> world \<Rightarrow> (go_error + string) \<times> world" where
  "computeSHA S path w =
     (case os_Open_Copy path w of
        (Inl e, w1) \<Rightarrow> (Inl e, w1)
      | (Inr bytes, w1) \<Rightarrow> (Inr (sha256_hex S bytes), w1))"

text \<open>
  \<open>commandEnvironment\<close>: the pairs of \<open>os.Environ()\<close> (here the argument \<open>env\<close>) are
  read in order into a map (a pair without \<open>=\<close>, or with \<open>=\<close> first, is passed over),
  the custom variables are stored over them, and the keys are sorted with
  \<open>sort.Strings\<close>. The result is nil for an empty custom map.
\<close>

definition environ_step :: "(string, string) gomap \<Rightarrow> string \<Rightarrow> (string, string) gomap" where
  "environ_step vals pair =
     (let idx = Index pair CHR ''=''
      in if idx > 0 then AList.update (take (nat idx) pair) (drop (nat idx + 1) pair) vals
         else vals)"

definition commandEnvironment :: "(string, string) gomap \<Rightarrow> string list \<Rightarrow> string list option" where
  "commandEnvironment custom env =
     (if length custom = 0 then None
      else
        let vals0 = foldl environ_step [] env;
            vals = foldl (\<lambda>vs kv. AList.update (fst kv) (snd kv) vs) vals0 custom;
            keys = sort (map fst vals)
        in Some (map (\<lambda>key. key @ ''='' @ (case map_of vals key of Some v \<Rightarrow> v | None \<Rightarrow> []))
                   keys))"

definition shouldPublish :: "LPKBuildPublishModel option \<Rightarrow> bool" where
  "shouldPublish pub =
     (case pub of
        None \<Rightarrow> True
      | Some p \<Rightarrow> if BoolIsNull (Enabled p) then True else ValueBool (Enabled p))"

text \<open>
  \<open>sort.Slice\<close> on up to twelve elements is Go's insertion sort: each element moves left
  past the elements it is less than. (On longer slices Go switches to another algorithm,
  which may leave equal elements in another order.)
\<close>

fun insert_back :: "('a \<Rightarrow> 'a \<Rightarrow> bool) \<Rightarrow> 'a \<Rightarrow> 'a list \<Rightarrow> 'a list" where
  "insert_back lt x [] = [x]"
| "insert_back lt x (y # ys) = (if lt x y then y # insert_back lt x ys else x # y # ys)"

definition sort_Slice :: "('a \<Rightarrow> 'a \<Rightarrow> bool) \<Rightarrow> 'a list \<Rightarrow> 'a list" where
  "sort_Slice lt xs = rev (foldl (\<lambda>acc x. insert_back lt x acc) [] xs)"

definition mod_time :: "disk \<Rightarrow> string \<Rightarrow> nat" where
  "mod_time d p = (case stat_of d p of Inr info \<Rightarrow> ModTime info | Inl e \<Rightarrow> 0)"

text \<open>
  \<open>findLatestLPK\<close>: the comparison function stats both elements and discards the errors,
  so a match that cannot be stat'ed makes \<open>ModTime\<close> a call on a nil interface, which
  panics. With a single match the comparison is never called. The log records one stat
  for each match that is compared.
\<close>

definition findLatestLPK :: "sys \<Rightarrow> string \<Rightarrow> world \<Rightarrow> (go_error + string) \<times> world" where
  "findLatestLPK S dir w =
     (case filepath_Glob S (Join [dir, ''*.lpk'']) w of
        (Inl e, w1) \<Rightarrow> (Inl e, w1)
      | (Inr matches, w1) \<Rightarrow>
          if length matches = 0 then (Inl (ErrorString ''no .lpk artifact produced''), w1)
          else if length matches < 2 then (Inr (hd matches), w1)
          else
            let w2 = foldl (\<lambda>w' m. emit (EvStat m) w') w1 matches
            in if list_ex (\<lambda>m. isl (stat_of (dsk w1) m)) matches then
                 (Inl (RuntimePanic ''invalid memory address or nil pointer dereference''), w2)
               else
                 (Inr (hd (sort_Slice (\<lambda>a b. mod_time (dsk w1) a > mod_time (dsk w1) b) matches)),
                  w2))"

text \<open>
  What \<open>runBuild\<close> does after a successful build command: find the newest \<open>.lpk\<close> and
  rename it to the canonical path when its path differs.
\<close>

definition runBuild_collect :: "sys \<Rightarrow> string \<Rightarrow> string \<Rightarrow> world \<Rightarrow> go_error option \<times> world" where
  "runBuild_collect S path artifactPath w =
     (case findLatestLPK S path w of
        (Inl e, w2) \<Rightarrow> (Some e, w2)
      | (Inr out, w2) \<Rightarrow>
          if out \<noteq> artifactPath then
            (case os_Rename out artifactPath w2 of
               (Some e, w3) \<Rightarrow> (Some (Errorf_w ''rename artifact: '' e), w3)
             | (None, w3) \<Rightarrow> (None, w3))
          else (None, w2))"

text \<open>
  The branch of \<open>runBuild\<close> taken when no artifact exists at the canonical path: run the
  build command and collect its output.
\<close>

definition runBuild_invoke ::
  "sys \<Rightarrow> string \<Rightarrow> LPKBuildBuildModel option \<Rightarrow> (string, string) gomap \<Rightarrow> string \<Rightarrow> world \<Rightarrow>
   go_error option \<times> world"
where
  "runBuild_invoke S path build envVars artifactPath w =
     (let command =
            (case build of
               None \<Rightarrow> ''npx lzc-cli project build .''
             | Some b \<Rightarrow>
                 if \<not> IsNull (Command b) \<and> ValueString (Command b) \<noteq> [] then ValueString (Command b)
                 else ''npx lzc-cli project build .'');
          env = (if length envVars > 0 then commandEnvironment envVars (environ w) else None)
      in case Cmd_Run S ''sh'' [''-c'', command] path env w of
           (Some e, w1) \<Rightarrow> (Some e, w1)
         | (None, w1) \<Rightarrow> runBuild_collect S path artifactPath w1)"

text \<open>
  The cache check of \<open>runBuild\<close>: when \<open>os.Stat\<close> reports that nothing exists at the
  canonical path the build is invoked; any other stat error ends the build; an existing
  path skips the build command.
\<close>

definition runBuild_ensure ::
  "sys \<Rightarrow> string \<Rightarrow> LPKBuildBuildModel option \<Rightarrow> (string, string) gomap \<Rightarrow> string \<Rightarrow> world \<Rightarrow>
   go_error option \<times> world"
where
  "runBuild_ensure S path build envVars artifactPath w =
     (case os_Stat artifactPath w of
        (st, w1) \<Rightarrow>
          (case st of
             Inl statErr \<Rightarrow>
               if Is_ErrNotExist statErr then runBuild_invoke S path build envVars artifactPath w1
               else (Some (Errorf_w ''check artifact: '' statErr), w1)
           | Inr info \<Rightarrow> (None, w1)))"

text \<open>\<open>fmt.Sprintf("%s-%s-%s", a, b, c)\<close>.\<close>

definition Sprintf_dashes :: "string \<Rightarrow> string \<Rightarrow> string \<Rightarrow> string" where
  "Sprintf_dashes a b c = a @ ''-'' @ b @ ''-'' @ c"

text \<open>The metadata \<open>runBuild\<close> returns, with the overrides of the publish block.\<close>

definition runBuild_meta ::
  "manifestYAML \<Rightarrow> string \<Rightarrow> string \<Rightarrow> LPKBuildPublishModel option \<Rightarrow> lpkMetadata"
where
  "runBuild_meta manifest sha artifactBase pub =
     \<lparr>meta_AppID = man_AppID manifest,
      meta_Version =
        (case pub of
           None \<Rightarrow> man_Version manifest
         | Some p \<Rightarrow>
             if \<not> IsNull (pub_Version p) \<and> ValueString (pub_Version p) \<noteq> [] then
               ValueString (pub_Version p)
             else man_Version manifest),
      meta_SHA256 = sha,
      meta_Name =
        (case pub of
           None \<Rightarrow> artifactBase
         | Some p \<Rightarrow>
             if \<not> IsNull (pub_Name p) \<and> ValueString (pub_Name p) \<noteq> [] then ValueString (pub_Name p)
             else artifactBase)\<rparr>"

definition runBuild ::
  "sys \<Rightarrow> string \<Rightarrow> LPKBuildBuildModel option \<Rightarrow> LPKBuildPublishModel option \<Rightarrow>
   (string, string) gomap \<Rightarrow> world \<Rightarrow> (go_error + string \<times> lpkMetadata) \<times> world"
where
  "runBuild S path build pub envVars w =
     (let manifestPath = Join [path, ''lzc-manifest.yml'']
      in (case readManifest S manifestPath w of
           (Inl e, w1) \<Rightarrow> (Inl (Errorf_w ''read manifest: '' e), w1)
         | (Inr manifest, w1) \<Rightarrow>
             if man_Name manifest = [] then (Inl (ErrorString ''manifest name must be set''), w1)
             else if man_Version manifest = [] then
               (Inl (ErrorString ''manifest version must be set''), w1)
             else
               (case computeSHA S manifestPath w1 of
                  (Inl e, w2) \<Rightarrow> (Inl (Errorf_w ''compute manifest hash: '' e), w2)
                | (Inr manifestHash, w2) \<Rightarrow>
                    let artifactBase =
                          Sprintf_dashes (man_Name manifest) (man_Version manifest) manifestHash;
                        artifactPath = Join [path, artifactBase @ ''.lpk'']
                    in (case runBuild_ensure S path build envVars artifactPath w2 of
                          (Some e, w3) \<Rightarrow> (Inl e, w3)
                        | (None, w3) \<Rightarrow>
                            (case computeSHA S artifactPath w3 of
                               (Inl e, w4) \<Rightarrow> (Inl e, w4)
                             | (Inr sha, w4) \<Rightarrow>
                                 (Inr (artifactPath, runBuild_meta manifest sha artifactBase pub),
                                  w4))))))"

section \<open>Publishing and the orchestrator\<close>

definition canReuseUpload :: "LPKBuildModel option \<Rightarrow> lpkMetadata \<Rightarrow> bool" where
  "canReuseUpload prior meta =
     (case prior of
        None \<Rightarrow> False
      | Some p \<Rightarrow>
          if IsNull (UploadID p) \<or> ValueString (UploadID p) = [] then False
          else if IsNull (LPKURL p) \<or> ValueString (LPKURL p) = [] then False
          else if IsNull (SHA256 p) \<or> ValueString (SHA256 p) \<noteq> meta_SHA256 meta then False
          else True)"

definition client_UploadLPK ::
  "sys \<Rightarrow> string \<Rightarrow> string \<Rightarrow> string \<Rightarrow> string \<Rightarrow> world \<Rightarrow> (go_error + uploadResult) \<times> world"
where
  "client_UploadLPK S user name version path w =
     (UploadLPK S user name version path (dsk w), emit (EvUpload user name version path) w)"

text \<open>
  The part of \<open>applyBuild\<close> after a successful \<open>runBuild\<close>: the computed attributes are
  set from the metadata, the artifact is uploaded or the prior upload reused, and the
  identifier is formatted from the metadata.
\<close>

definition applyBuild_publish ::
  "sys \<Rightarrow> string \<Rightarrow> LPKBuildModel \<Rightarrow> LPKBuildModel option \<Rightarrow> string \<Rightarrow> lpkMetadata \<Rightarrow> world \<Rightarrow>
   (go_error + LPKBuildModel) \<times> world"
where
  "applyBuild_publish S user data0 prior lpkPath meta w =
     (let data1 = data0\<lparr>LocalPath := StringValue lpkPath,
                       AppID := StringValue (meta_AppID meta),
                       Version := StringValue (meta_Version meta),
                       SHA256 := StringValue (meta_SHA256 meta),
                       LPKURL := StringNull,
                       UploadID := StringNull\<rparr>;
          ident =
            StringValue (Sprintf_dashes (meta_AppID meta) (meta_Version meta) (meta_SHA256 meta))
      in if shouldPublish (Publish data1) then
           if canReuseUpload prior meta then
             (case prior of
                None \<Rightarrow> (Inl (RuntimePanic ''invalid memory address or nil pointer dereference''), w)
              | Some p \<Rightarrow>
                  (Inr (data1\<lparr>LPKURL := LPKURL p,
                              UploadID := UploadID p,
                              Version := (if \<not> IsNull (Version p) then Version p else Version data1),
                              ID := ident\<rparr>), w))
           else
             (let uploadName =
                    (case Publish data1 of
                       None \<Rightarrow> meta_Name meta
                     | Some p \<Rightarrow>
                         if \<not> IsNull (pub_Name p) \<and> ValueString (pub_Name p) \<noteq> [] then ValueString (pub_Name p)
                         else meta_Name meta);
                  uploadVersion =
                    (case Publish data1 of
                       None \<Rightarrow> meta_Version meta
                     | Some p \<Rightarrow>
                         if \<not> IsNull (pub_Version p) \<and> ValueString (pub_Version p) \<noteq> [] then
                           ValueString (pub_Version p)
                         else meta_Version meta)
              in case client_UploadLPK S user uploadName uploadVersion lpkPath w of
                   (Inl e, w1) \<Rightarrow> (Inl (Errorf_w ''upload error: '' e), w1)
                 | (Inr upload, w1) \<Rightarrow>
                     (Inr (data1\<lparr>LPKURL := StringValue (up_DownloadURL upload),
                                 UploadID := StringValue (up_ID upload),
                                 SHA256 := (if up_SHA256 upload \<noteq> [] then StringValue (up_SHA256 upload)
                                            else SHA256 data1),
                                 Version := (if up_Version upload \<noteq> [] then StringValue (up_Version upload)
                                             else Version data1),
                                 ID := ident\<rparr>), w1))
         else (Inr (data1\<lparr>ID := ident\<rparr>), w))"

text \<open>The part of \<open>applyBuild\<close> that runs under the deferred cleanup.\<close>

definition applyBuild_body ::
  "sys \<Rightarrow> string \<Rightarrow> LPKBuildModel \<Rightarrow> LPKBuildModel option \<Rightarrow> string \<Rightarrow> world \<Rightarrow>
   (go_error + LPKBuildModel) \<times> world"
where
  "applyBuild_body S user data0 prior workdir w =
     (let envVars = collectEnvVars (Env data0);
          ext = resolveTemplateExtension (Env data0)
      in case renderTemplateFiles S workdir ext envVars w of
           (Some e, w1) \<Rightarrow> (Inl e, w1)
         | (None, w1) \<Rightarrow>
             (case runBuild S workdir (Build data0) (Publish data0) envVars w1 of
                (Inl e, w2) \<Rightarrow> (Inl e, w2)
              | (Inr (lpkPath, meta), w2) \<Rightarrow> applyBuild_publish S user data0 prior lpkPath meta w2))"

text \<open>
  \<open>applyBuild\<close>: \<open>user\<close> is the \<open>User\<close> field of the configured client. The cleanup is
  deferred, so it runs when the function returns, whatever it returns.
\<close>

definition applyBuild ::
  "sys \<Rightarrow> string \<Rightarrow> LPKBuildModel \<Rightarrow> LPKBuildModel option \<Rightarrow> world \<Rightarrow>
   (go_error + LPKBuildModel) \<times> world"
where
  "applyBuild S user data0 prior w =
     (case prepareSource S (Source data0) w of
        (Inl e, w1) \<Rightarrow> (Inl (Errorf_w ''source error: '' e), w1)
      | (Inr (workdir, cleanup), w1) \<Rightarrow>
          (case applyBuild_body S user data0 prior workdir w1 of
             (r, w2) \<Rightarrow>
               (r, (case cleanup of None \<Rightarrow> w2 | Some tmp \<Rightarrow> os_RemoveAll tmp w2))))"

section \<open>Observations on the event log\<close>

text \<open>
  The events of the file system; a command execution and an upload are the other two
  kinds. \<open>count_events P w\<close> is the number of events of the log that satisfy \<open>P\<close>.
\<close>

fun fs_event :: "event \<Rightarrow> bool" where
  "fs_event (EvExec n a d e) = False"
| "fs_event (EvUpload u n v p) = False"
| "fs_event _ = True"

fun is_upload :: "event \<Rightarrow> bool" where
  "is_upload (EvUpload u n v p) = True"
| "is_upload _ = False"

text \<open>The build command is run as \<open>sh -c COMMAND\<close>.\<close>

fun is_build_command :: "event \<Rightarrow> bool" where
  "is_build_command (EvExec n a d e) = (n = ''sh'' \<and> length a = 2 \<and> hd a = ''-c'')"
| "is_build_command _ = False"

definition count_events :: "(event \<Rightarrow> bool) \<Rightarrow> world \<Rightarrow> nat" where
  "count_events P w = length (filter P (io_log w))"

definition ignores_fs :: "(event \<Rightarrow> bool) \<Rightarrow> bool" where
  "ignores_fs P = (\<forall>e. fs_event e \<longrightarrow> \<not> P e)"

text \<open>
  The reuse condition in the words of the specification: a prior upload record exists,
  with a non-empty upload identifier, a non-empty download URL, and a recorded content
  hash equal to the hash \<open>h\<close> of the current artifact.
\<close>

definition CanReuse_spec :: "LPKBuildModel option \<Rightarrow> string \<Rightarrow> bool" where
  "CanReuse_spec prior h =
     (case prior of
        None \<Rightarrow> False
      | Some p \<Rightarrow>
          \<not> IsNull (UploadID p) \<and> ValueString (UploadID p) \<noteq> [] \<and>
          \<not> IsNull (LPKURL p) \<and> ValueString (LPKURL p) \<noteq> [] \<and>
          \<not> IsNull (SHA256 p) \<and> ValueString (SHA256 p) = h)"



text \<open>
  The version of the metadata in the words of the specification: the manifest version,
  or the version of the publish block when that is non-empty.
\<close>

definition effective_version :: "manifestYAML \<Rightarrow> LPKBuildPublishModel option \<Rightarrow> string" where
  "effective_version manifest pub =
     (case pub of
        None \<Rightarrow> man_Version manifest
      | Some p \<Rightarrow>
          if ValueString (pub_Version p) \<noteq> [] then ValueString (pub_Version p)
          else man_Version manifest)"

text \<open>
  The paths read as templates between two worlds, in the order they were read, and the
  entries of a disk that count as templates for an extension: those that are not
  directories and whose name ends with the extension.
\<close>

definition reads_of :: "event list \<Rightarrow> string list" where
  "reads_of evs = List.map_filter (\<lambda>e. case e of EvReadFile p \<Rightarrow> Some p | _ \<Rightarrow> None) evs"

definition template_reads :: "world \<Rightarrow> world \<Rightarrow> string list" where
  "template_reads w w' = reads_of (drop (length (io_log w)) (io_log w'))"

definition is_template :: "disk \<Rightarrow> string \<Rightarrow> string \<Rightarrow> bool" where
  "is_template d ext k =
     ((case map_of (entries d) k of Some (DirNode m) \<Rightarrow> False | _ \<Rightarrow> True) \<and> suffix ext (Base k))"






text \<open>
  The environment of the build command in the words of the specification: the inherited
  environment (each \<open>KEY=VALUE\<close> entry split at its first \<open>=\<close>, the last entry of a key
  counting) overlaid with the supplied variables, a supplied value winning, as
  \<open>KEY=VALUE\<close> strings in ascending order of the keys.
\<close>

definition parse_pair :: "string \<Rightarrow> (string \<times> string) option" where
  "parse_pair pair =
     (let k = takeWhile (\<lambda>c. c \<noteq> CHR ''='') pair; rest = dropWhile (\<lambda>c. c \<noteq> CHR ''='') pair
      in if k \<noteq> [] \<and> rest \<noteq> [] then Some (k, tl rest) else None)"

definition spec_environment :: "string list \<Rightarrow> (string, string) gomap \<Rightarrow> string list" where
  "spec_environment env custom =
     (let inh = List.map_filter parse_pair env;
          keys = sort (remdups (map fst inh @ map fst custom))
      in map (\<lambda>key. key @ ''='' @
                (case map_of custom key of
                   Some v \<Rightarrow> v
                 | None \<Rightarrow> (case map_of (rev inh) key of Some v \<Rightarrow> v | None \<Rightarrow> [])))
           keys)"

text \<open>The length of a UTF-8 sequence that starts a white space character, by its first byte.\<close>

definition utf8_len :: "char \<Rightarrow> nat" where
  "utf8_len c = (if c = CHR 0xC2 then 2 else if c \<in> {CHR 0xE1, CHR 0xE2, CHR 0xE3} then 3 else 1)"

text \<open>
  The pattern \<open>findLatestLPK\<close> hands to \<open>filepath.Glob\<close> names the entries directly
  in one directory, \<open>lpk_dir\<close>; \<open>lpk_matches\<close> are the entries of the disk it matches
  when that directory has no pattern metacharacter. \<open>files_below\<close> follows the words of the
  specification instead: the entries with the extension anywhere below the working
  directory.
\<close>

definition lpk_dir :: "string \<Rightarrow> string" where
  "lpk_dir dir = Dir (Join [dir, ''*.lpk''])"

definition lpk_matches :: "disk \<Rightarrow> string \<Rightarrow> string list" where
  "lpk_matches d dir = glob_children d (lpk_dir dir) ''.lpk''"

definition files_below :: "disk \<Rightarrow> string \<Rightarrow> string \<Rightarrow> string list" where
  "files_below d dir sfx =
     filter (\<lambda>k. path_under (Clean dir) k \<and> suffix sfx (Base k)) (map fst (entries d))"

section \<open>A concrete run\<close>

text \<open>
  A small instance of the collaborators and of the world, on which the theorems below are
  instantiated: the digest prefixes \<open>sha:\<close> to the bytes, the YAML decoder returns the
  manifest \<open>{name: app, version: 1.0.0, appid: a1}\<close>, the template parser knows the
  templates \<open>{{.MISSING}}\<close>, \<open>{{if .DEBUG}}{{.MISSING}}{{end}}\<close> and
  \<open>key={{index . "MISSING"}}\<close> and takes everything else for literal text, the build command
  writes \<open>out.lpk\<close> into its working directory, \<open>git clone\<close> writes a manifest into
  the clone, \<open>git checkout missing\<close> fails, and the registry answers every upload with
  the same record.
\<close>

definition demo_sys :: sys where
  "demo_sys =
     \<lparr>sha256_hex = (\<lambda>b. ''sha:'' @ b),
      yaml_Unmarshal = (\<lambda>b. Inr \<lparr>man_AppID = ''a1'', man_Version = ''1.0.0'', man_Name = ''app''\<rparr>),
      template_Parse =
        (\<lambda>name b.
           if b = ''{{.MISSING}}'' then
             Inr [FieldNode ''MISSING''
                    (''template: '' @ name @ '':1:2: executing '' @ go_quote name @ '' at <.MISSING>: '')]
           else if b = ''{{if .DEBUG}}{{.MISSING}}{{end}}'' then
             Inr [IfNode ''DEBUG''
                    (''template: '' @ name @ '':1:5: executing '' @ go_quote name @ '' at <.DEBUG>: '')
                    [FieldNode ''MISSING''
                       (''template: '' @ name @ '':1:16: executing '' @ go_quote name @
                        '' at <.MISSING>: '')]
                    []]
           else if b = ''key={{index . '' @ go_quote ''MISSING'' @ ''}}'' then
             Inr [TextNode ''key='', IndexNode ''MISSING'']
           else Inr [TextNode b]),
      exec_Run =
        (\<lambda>name args dir env d.
           if name = ''sh'' then
             (None, d\<lparr>entries := AList.update (Join [dir, ''out.lpk'']) (RegFile ''LPK'' 5 420) (entries d)\<rparr>)
           else if name = ''git'' \<and> take 1 args = [''clone''] then
             (None, d\<lparr>entries := AList.update (Join [dir, ''repo'', ''lzc-manifest.yml''])
                                    (RegFile ''name: app'' 2 420) (entries d)\<rparr>)
           else if name = ''git'' \<and> args = [''checkout'', ''missing''] then
             (Some (ErrorString ''exit status 1''), d)
           else (None, d)),
      mkdir_temp = (\<lambda>dir pat d. Inr ''/tmp/lpk-build-1''),
      glob_other = (\<lambda>pat d. Inr []),
      UploadLPK =
        (\<lambda>user name version path d.
           Inr \<lparr>up_ID = ''id1'', up_DownloadURL = ''http://nas/app.lpk'',
                up_SHA256 = ''remote-sha'', up_Version = ''9.9''\<rparr>)\<rparr>"

definition demo_world :: world where
  "demo_world =
     \<lparr>dsk = \<lparr>entries = [(''/w/lzc-manifest.yml'', RegFile ''name: app'' 1 420)], faulty = {}\<rparr>,
      io_log = [], environ = [''PATH=/bin'', ''HOME=/root'', ''=hidden'', ''NOEQ''], now = 7\<rparr>"

definition demo_data :: LPKBuildModel where
  "demo_data =
     \<lparr>ID = StringUnknown,
      Source = Some \<lparr>Local = Some \<lparr>Path = StringValue ''/w''\<rparr>, Git = None\<rparr>,
      Build = None, Publish = None, Env = None,
      LPKURL = StringUnknown, SHA256 = StringUnknown, AppID = StringUnknown,
      Version = StringUnknown, LocalPath = StringUnknown, UploadID = StringUnknown\<rparr>"

definition demo_prior :: LPKBuildModel where
  "demo_prior =
     demo_data\<lparr>ID := StringValue ''a1-1.0.0-sha:LPK'',
                 LPKURL := StringValue ''http://old/app.lpk'',
                 SHA256 := StringValue ''sha:LPK'',
                 UploadID := StringValue ''old-id''\<rparr>"

definition demo_walked :: world where
  "demo_walked = emit (EvWalkDir ''/w'') demo_world"

definition demo_meta :: lpkMetadata where
  "demo_meta = \<lparr>meta_AppID = ''a1'', meta_Version = ''1.0.0'', meta_SHA256 = ''sha:LPK'',
           meta_Name = ''app-1.0.0-sha:name: app''\<rparr>"



definition demo_git_block :: LPKBuildSourceGitModel where
  "demo_git_block =
     \<lparr>URL = StringValue ''https://example.test/app.git'', Ref = StringValue ''missing'',
      Subpath = StringNull\<rparr>"

definition demo_git :: LPKBuildModel where
  "demo_git = demo_data\<lparr>Source := Some \<lparr>Local = None, Git = Some demo_git_block\<rparr>\<rparr>"

definition demo_templates :: world where
  "demo_templates =
     demo_world\<lparr>dsk :=
       \<lparr>entries =
          [(''/w/lzc-manifest.yml'', RegFile ''name: app'' 1 420),
           (''/w/sub'', DirNode 1),
           (''/w/sub/c.j2'', RegFile ''port: 80'' 1 420),
           (''/w/b.txt'', RegFile ''notes'' 1 420),
           (''/w/a.j2'', RegFile ''host: nas'' 1 384),
           (''/w/cfg.yaml.tmpl'', RegFile ''{{.MISSING}}'' 1 420)],
        faulty = {}\<rparr>\<rparr>"

definition demo_custom :: "(string, string) gomap" where
  "demo_custom = [(''PATH'', ''/opt/bin''), (''API_KEY'', ''s3cret'')]"


text \<open>
  A build command that writes its output into the subdirectory \<open>dist\<close>, and a working
  directory that holds two artifacts of different age, a directory \<open>pkg.lpk\<close>, and a
  newer artifact in \<open>dist\<close>.
\<close>

definition demo_nested_sys :: sys where
  "demo_nested_sys =
     demo_sys\<lparr>exec_Run :=
       (\<lambda>name args dir env d.
          (None, d\<lparr>entries := AList.update (Join [dir, ''dist'', ''out.lpk'']) (RegFile ''LPK'' 5 420)
                                  (entries d)\<rparr>))\<rparr>"

definition demo_lpks :: world where
  "demo_lpks =
     demo_world\<lparr>dsk :=
       \<lparr>entries =
          [(''/w/lzc-manifest.yml'', RegFile ''name: app'' 1 420),
           (''/w/old.lpk'', RegFile ''OLD'' 3 420),
           (''/w/new.lpk'', RegFile ''NEW'' 5 420),
           (''/w/notes.txt'', RegFile ''notes'' 8 420),
           (''/w/pkg.lpk/data'', RegFile ''DATA'' 6 420),
           (''/w/dist/deep.lpk'', RegFile ''DEEP'' 9 420)],
        faulty = {}\<rparr>\<rparr>"

text \<open>A build command that fails and leaves the disk as it is.\<close>

definition demo_failing_sys :: sys where
  "demo_failing_sys =
     demo_sys\<lparr>exec_Run := (\<lambda>name args dir env d. (Some (ErrorString ''exit status 1''), d))\<rparr>"


section \<open>Basic facts about the primitives\<close>

lemma io_log_emit [simp]: "io_log (emit e w) = io_log w @ [e]"
  by (simp add: emit_def)

lemma dsk_emit [simp]: "dsk (emit e w) = dsk w"
  by (simp add: emit_def)

lemma environ_emit [simp]: "environ (emit e w) = environ w"
  by (simp add: emit_def)

lemma now_emit [simp]: "now (emit e w) = now w"
  by (simp add: emit_def)

lemma count_emit [simp]: "count_events P (emit e w) = count_events P w + (if P e then 1 else 0)"
  by (simp add: count_events_def)

lemma count_dsk_update [simp]: "count_events P (w\<lparr>dsk := d\<rparr>) = count_events P w"
  by (simp add: count_events_def)

lemma count_os_Stat: "os_Stat p w = (r, w') \<Longrightarrow> ignores_fs P \<Longrightarrow> count_events P w' = count_events P w"
  by (auto simp: os_Stat_def ignores_fs_def)

lemma count_os_ReadFile: "os_ReadFile p w = (r, w') \<Longrightarrow> ignores_fs P \<Longrightarrow> count_events P w' = count_events P w"
  by (auto simp: os_ReadFile_def ignores_fs_def)

lemma count_os_Open_Copy: "os_Open_Copy p w = (r, w') \<Longrightarrow> ignores_fs P \<Longrightarrow> count_events P w' = count_events P w"
  by (auto simp: os_Open_Copy_def ignores_fs_def)

lemma count_os_WriteFile: "os_WriteFile p b pm w = (r, w') \<Longrightarrow> ignores_fs P \<Longrightarrow> count_events P w' = count_events P w"
  by (auto simp: os_WriteFile_def ignores_fs_def split: sum.splits)

lemma count_os_Rename: "os_Rename a b w = (r, w') \<Longrightarrow> ignores_fs P \<Longrightarrow> count_events P w' = count_events P w"
  by (auto simp: os_Rename_def ignores_fs_def split: sum.splits)

lemma count_os_RemoveAll: "ignores_fs P \<Longrightarrow> count_events P (os_RemoveAll p w) = count_events P w"
  by (auto simp: os_RemoveAll_def ignores_fs_def)

lemma count_os_MkdirTemp: "os_MkdirTemp S a b w = (r, w') \<Longrightarrow> ignores_fs P \<Longrightarrow> count_events P w' = count_events P w"
  by (auto simp: os_MkdirTemp_def ignores_fs_def split: sum.splits)

lemma count_filepath_Glob: "filepath_Glob S p w = (r, w') \<Longrightarrow> ignores_fs P \<Longrightarrow> count_events P w' = count_events P w"
  by (auto simp: filepath_Glob_def ignores_fs_def)

lemma count_Cmd_Run:
  "Cmd_Run S n a d e w = (r, w') \<Longrightarrow>
   count_events P w' = count_events P w + (if P (EvExec n a d e) then 1 else 0)"
  by (auto simp: Cmd_Run_def split: prod.splits)

lemma count_client_UploadLPK:
  "client_UploadLPK S u n v p w = (r, w') \<Longrightarrow>
   count_events P w' = count_events P w + (if P (EvUpload u n v p) then 1 else 0)"
  by (auto simp: client_UploadLPK_def)

lemma count_renderTemplateFile:
  assumes "renderTemplateFile S p x v w = (r, w')" and "ignores_fs P"
  shows "count_events P w' = count_events P w"
  using assms
  by (auto simp: renderTemplateFile_def Let_def split: prod.splits sum.splits option.splits
      dest!: count_os_Stat count_os_ReadFile count_os_WriteFile)

lemma count_walk_list:
  assumes fn: "\<And>p en er w r w'. fn p en er w = (r, w') \<Longrightarrow> count_events P w' = count_events P w"
  shows "walk_list fn snap ks w = (r, w') \<Longrightarrow> count_events P w' = count_events P w"
proof (induction "length ks" arbitrary: ks w rule: less_induct)
  case less
  show ?case
  proof (cases ks)
    case Nil
    with less.prems show ?thesis by simp
  next
    case (Cons k ks')
    have short: "length (filter (\<lambda>x. \<not> path_under k x) ks') < length ks"
      using Cons by (simp add: less_Suc_eq_le)
    have rec1: "\<And>w1. walk_list fn snap ks' w1 = (r, w') \<Longrightarrow> count_events P w' = count_events P w1"
      using less.hyps [of ks'] Cons by simp
    have rec2: "\<And>w1. walk_list fn snap (filter (\<lambda>x. \<not> path_under k x) ks') w1 = (r, w')
        \<Longrightarrow> count_events P w' = count_events P w1"
      using less.hyps [OF short] by simp
    from less.prems Cons show ?thesis
      by (auto split: option.splits fnode.splits prod.splits if_splits
          dest!: fn rec1 rec2)
  qed
qed

lemma count_filepath_WalkDir:
  assumes fn: "\<And>p en er w r w'. fn p en er w = (r, w') \<Longrightarrow> count_events P w' = count_events P w"
    and "ignores_fs P"
  shows "filepath_WalkDir root fn w = (r, w') \<Longrightarrow> count_events P w' = count_events P w"
proof -
  have wl: "\<And>snap ks w1. walk_list fn snap ks w1 = (r, w') \<Longrightarrow> count_events P w' = count_events P w1"
    by (rule count_walk_list [OF fn])
  show "filepath_WalkDir root fn w = (r, w') \<Longrightarrow> count_events P w' = count_events P w"
    using assms(2)
    by (auto simp: filepath_WalkDir_def Let_def ignores_fs_def
        split: if_splits prod.splits option.splits dest!: fn wl)
qed

lemma count_renderTemplateFiles:
  assumes "renderTemplateFiles S b x v w = (r, w')" and "ignores_fs P"
  shows "count_events P w' = count_events P w"
  using assms(1) unfolding renderTemplateFiles_def Let_def
  by (rule count_filepath_WalkDir [rotated 2])
     (auto simp: render_visit_def split: option.splits if_splits
       dest: count_renderTemplateFile [OF _ assms(2)] simp: assms(2))


lemma ignores_fs_is_upload [simp]: "ignores_fs is_upload"
  unfolding ignores_fs_def
proof (intro allI impI)
  fix e show "fs_event e \<Longrightarrow> \<not> is_upload e" by (cases e) simp_all
qed

lemma ignores_fs_is_build_command [simp]: "ignores_fs is_build_command"
  unfolding ignores_fs_def
proof (intro allI impI)
  fix e show "fs_event e \<Longrightarrow> \<not> is_build_command e" by (cases e) simp_all
qed

lemma count_prepareSource:
  assumes "prepareSource S src w = (r, w')" and "ignores_fs P"
    and "\<And>a d e. \<not> P (EvExec ''git'' a d e)"
  shows "count_events P w' = count_events P w"
  using assms
  by (auto simp: prepareSource_def Let_def count_os_RemoveAll
      split: option.splits if_splits prod.splits sum.splits
      dest!: count_os_MkdirTemp [where P = P] count_Cmd_Run [where P = P])

lemma count_foldl_emit_stat:
  "ignores_fs P \<Longrightarrow> count_events P (foldl (\<lambda>w' m. emit (EvStat m) w') w ms) = count_events P w"
  by (induction ms arbitrary: w) (simp_all add: ignores_fs_def)

lemma count_findLatestLPK:
  assumes "findLatestLPK S dir w = (r, w')" and "ignores_fs P"
  shows "count_events P w' = count_events P w"
  using assms
  by (auto simp: findLatestLPK_def Let_def count_foldl_emit_stat
      split: prod.splits sum.splits if_splits dest!: count_filepath_Glob [where P = P])

lemma count_runBuild_collect:
  assumes "runBuild_collect S path ap w = (r, w')" and "ignores_fs P"
  shows "count_events P w' = count_events P w"
  using assms
  by (auto simp: runBuild_collect_def split: prod.splits option.splits sum.splits if_splits
      dest!: count_findLatestLPK [where P = P] count_os_Rename [where P = P])

lemma count_runBuild_invoke_other:
  assumes "runBuild_invoke S path build envVars ap w = (r, w')" and "ignores_fs P"
    and "\<And>a d e. \<not> P (EvExec ''sh'' a d e)"
  shows "count_events P w' = count_events P w"
  using assms
  by (auto simp: runBuild_invoke_def Let_def
      split: prod.splits option.splits sum.splits if_splits
      dest!: count_Cmd_Run [where P = P] count_runBuild_collect [where P = P])

lemma count_runBuild_invoke_build:
  assumes "runBuild_invoke S path build envVars ap w = (r, w')"
  shows "count_events is_build_command w' = Suc (count_events is_build_command w)"
  using assms
  by (auto simp: runBuild_invoke_def Let_def
      split: prod.splits option.splits sum.splits if_splits
      dest!: count_Cmd_Run [where P = is_build_command]
        count_runBuild_collect [where P = is_build_command])

lemma readManifest_Inr:
  assumes "readManifest S p w = (Inr m, w1)"
  shows "\<exists>bytes. read_of (dsk w) p = Inr bytes \<and> yaml_Unmarshal S bytes = Inr m \<and>
           w1 = emit (EvReadFile p) w"
  using assms by (auto simp: readManifest_def os_ReadFile_def split: sum.splits)

lemma computeSHA_Inr:
  assumes "computeSHA S p w = (Inr h, w1)"
  shows "\<exists>c. read_of (dsk w) p = Inr c \<and> h = sha256_hex S c \<and> w1 = emit (EvOpen p) w"
  using assms by (auto simp: computeSHA_def os_Open_Copy_def split: sum.splits)

lemma computeSHA_snd: "snd (computeSHA S p w) = emit (EvOpen p) w"
  by (auto simp: computeSHA_def os_Open_Copy_def split: sum.splits)

lemma readManifest_snd: "snd (readManifest S p w) = emit (EvReadFile p) w"
  by (auto simp: readManifest_def os_ReadFile_def split: sum.splits)

lemma stat_of_Inl:
  "stat_of d p = Inl e \<Longrightarrow> Is_ErrNotExist e \<Longrightarrow> \<not> path_exists d p"
  by (auto simp: stat_of_def path_exists_def is_dir_def lookup_def split: if_splits option.splits fnode.splits)

lemma stat_of_Inr: "stat_of d p = Inr i \<Longrightarrow> path_exists d p"
  by (auto simp: stat_of_def path_exists_def split: if_splits option.splits fnode.splits)


lemma runBuild_ensure_None:
  assumes "runBuild_ensure S path build envVars ap w = (None, w')"
  shows "count_events is_build_command w' =
           count_events is_build_command w + (if path_exists (dsk w) ap then 0 else 1)"
proof (cases "stat_of (dsk w) ap")
  case (Inr info)
  with assms have "w' = emit (EvStat ap) w" by (simp add: runBuild_ensure_def os_Stat_def)
  moreover from Inr have "path_exists (dsk w) ap" by (rule stat_of_Inr)
  ultimately show ?thesis by simp
next
  case (Inl statErr)
  with assms have ne: "Is_ErrNotExist statErr"
    by (auto simp: runBuild_ensure_def os_Stat_def split: if_splits)
  with Inl assms have "runBuild_invoke S path build envVars ap (emit (EvStat ap) w) = (None, w')"
    by (simp add: runBuild_ensure_def os_Stat_def)
  then have "count_events is_build_command w' =
      Suc (count_events is_build_command (emit (EvStat ap) w))"
    by (rule count_runBuild_invoke_build)
  moreover from Inl ne have "\<not> path_exists (dsk w) ap" by (rule stat_of_Inl)
  ultimately show ?thesis by simp
qed

lemma count_runBuild_ensure_other:
  assumes "runBuild_ensure S path build envVars ap w = (r, w')" and "ignores_fs P"
    and "\<And>a d e. \<not> P (EvExec ''sh'' a d e)"
  shows "count_events P w' = count_events P w"
  using assms
  by (auto simp: runBuild_ensure_def split: prod.splits sum.splits if_splits
      dest!: count_os_Stat [where P = P] count_runBuild_invoke_other [where P = P])

lemma runBuild_success:
  assumes "runBuild S path build pub envVars w = (Inr (ap, meta), w')"
  shows "\<exists>bytes manifest c.
           read_of (dsk w) (Join [path, ''lzc-manifest.yml'']) = Inr bytes \<and>
           yaml_Unmarshal S bytes = Inr manifest \<and>
           man_Name manifest \<noteq> [] \<and> man_Version manifest \<noteq> [] \<and>
           ap = Join [path, Sprintf_dashes (man_Name manifest) (man_Version manifest)
                        (sha256_hex S bytes) @ ''.lpk''] \<and>
           meta = runBuild_meta manifest (sha256_hex S c)
                    (Sprintf_dashes (man_Name manifest) (man_Version manifest) (sha256_hex S bytes)) pub \<and>
           read_of (dsk w') ap = Inr c \<and>
           count_events is_build_command w' =
             count_events is_build_command w + (if path_exists (dsk w) ap then 0 else 1)"
proof -
  let ?mp = "Join [path, ''lzc-manifest.yml'']"
  obtain r1 w1 where rm: "readManifest S ?mp w = (r1, w1)" by (cases "readManifest S ?mp w")
  with assms obtain manifest where r1: "r1 = Inr manifest"
    by (cases r1) (auto simp: runBuild_def Let_def)
  from rm r1 obtain bytes where bytes: "read_of (dsk w) ?mp = Inr bytes"
      "yaml_Unmarshal S bytes = Inr manifest" and w1: "w1 = emit (EvReadFile ?mp) w"
    by (auto dest: readManifest_Inr)
  from assms rm r1 have nv: "man_Name manifest \<noteq> []" "man_Version manifest \<noteq> []"
    by (auto simp: runBuild_def Let_def split: if_splits)
  obtain r2 w2 where cs: "computeSHA S ?mp w1 = (r2, w2)" by (cases "computeSHA S ?mp w1")
  with assms rm r1 nv obtain mh where r2: "r2 = Inr mh"
    by (cases r2) (auto simp: runBuild_def Let_def)
  from cs r2 w1 bytes have mh: "mh = sha256_hex S bytes" and w2: "w2 = emit (EvOpen ?mp) w1"
    by (auto dest: computeSHA_Inr)
  define base where "base = Sprintf_dashes (man_Name manifest) (man_Version manifest) mh"
  define ap' where "ap' = Join [path, base @ ''.lpk'']"
  obtain r3 w3 where en: "runBuild_ensure S path build envVars ap' w2 = (r3, w3)"
    by (cases "runBuild_ensure S path build envVars ap' w2")
  from assms rm r1 nv cs r2 en have r3: "r3 = None"
    by (cases r3) (auto simp: runBuild_def Let_def base_def ap'_def)
  obtain r4 w4 where c4: "computeSHA S ap' w3 = (r4, w4)" by (cases "computeSHA S ap' w3")
  from assms rm r1 nv cs r2 en r3 c4 obtain sha where r4: "r4 = Inr sha"
    by (cases r4) (auto simp: runBuild_def Let_def base_def ap'_def)
  from assms rm r1 nv cs r2 en r3 c4 r4
  have res: "ap = ap'" "w' = w4" "meta = runBuild_meta manifest sha base pub"
    by (auto simp: runBuild_def Let_def base_def ap'_def)
  from c4 r4 obtain c where c: "read_of (dsk w3) ap' = Inr c" "sha = sha256_hex S c"
    and w4: "w4 = emit (EvOpen ap') w3"
    by (auto dest: computeSHA_Inr)
  from en r3 have "count_events is_build_command w3 =
      count_events is_build_command w2 + (if path_exists (dsk w2) ap' then 0 else 1)"
    by (simp add: runBuild_ensure_None)
  then have cnt: "count_events is_build_command w4 =
      count_events is_build_command w + (if path_exists (dsk w) ap' then 0 else 1)"
    by (simp add: w4 w2 w1)
  show ?thesis
    apply (rule exI [of _ bytes], rule exI [of _ manifest], rule exI [of _ c])
    using bytes nv res c w4 cnt mh by (simp add: base_def ap'_def)
qed

lemma canReuseUpload_spec: "canReuseUpload prior meta = CanReuse_spec prior (meta_SHA256 meta)"
  by (cases prior) (auto simp: canReuseUpload_def CanReuse_spec_def)

lemma applyBuild_stages:
  assumes "prepareSource S (Source data0) w = (Inr (workdir, cleanup), w1)"
    and "renderTemplateFiles S workdir (resolveTemplateExtension (Env data0))
           (collectEnvVars (Env data0)) w1 = (None, w2)"
    and "runBuild S workdir (Build data0) (Publish data0) (collectEnvVars (Env data0)) w2 =
           (Inr (lpkPath, meta), w3)"
    and "applyBuild_publish S user data0 prior lpkPath meta w3 = (r4, w4)"
  shows "applyBuild S user data0 prior w =
           (r4, (case cleanup of None \<Rightarrow> w4 | Some tmp \<Rightarrow> os_RemoveAll tmp w4))"
  using assms by (simp add: applyBuild_def applyBuild_body_def Let_def)

lemma count_cleanup:
  "ignores_fs P \<Longrightarrow>
   count_events P (case cleanup of None \<Rightarrow> w | Some tmp \<Rightarrow> os_RemoveAll tmp w) = count_events P w"
  by (simp add: count_os_RemoveAll split: option.splits)

lemma count_computeSHA:
  "computeSHA S p w = (r, w') \<Longrightarrow> ignores_fs P \<Longrightarrow> count_events P w' = count_events P w"
  by (auto simp: computeSHA_def split: prod.splits sum.splits dest!: count_os_Open_Copy [where P = P])

lemma count_readManifest:
  "readManifest S p w = (r, w') \<Longrightarrow> ignores_fs P \<Longrightarrow> count_events P w' = count_events P w"
  by (auto simp: readManifest_def split: prod.splits sum.splits dest!: count_os_ReadFile [where P = P])


lemma count_runBuild_other:
  assumes "runBuild S path build pub envVars w = (r, w')" and "ignores_fs P"
    and "\<And>a d e. \<not> P (EvExec ''sh'' a d e)"
  shows "count_events P w' = count_events P w"
  using assms
  by (auto simp: runBuild_def Let_def split: prod.splits sum.splits if_splits option.splits
      dest!: count_computeSHA [where P = P] count_readManifest [where P = P]
        count_runBuild_ensure_other [where P = P])


lemma Publish_update_simps:
  "Publish (d\<lparr>LocalPath := a, AppID := b, Version := c, SHA256 := e, LPKURL := f, UploadID := g\<rparr>) = Publish d"
  by simp

lemma count_applyBuild_publish:
  assumes "applyBuild_publish S user data0 prior lpkPath meta w = (res, w')"
  shows "count_events is_upload w' =
           count_events is_upload w +
           (if shouldPublish (Publish data0) \<and> \<not> canReuseUpload prior meta then 1 else 0)"
proof (cases "shouldPublish (Publish data0)")
  case False
  with assms show ?thesis by (simp add: applyBuild_publish_def Let_def)
next
  case pub: True
  show ?thesis
  proof (cases "canReuseUpload prior meta")
    case True
    with pub assms show ?thesis
      by (cases prior) (simp_all add: applyBuild_publish_def Let_def)
  next
    case False
    with pub assms show ?thesis
      by (simp add: applyBuild_publish_def Let_def client_UploadLPK_def split: sum.splits)
        (auto)
  qed
qed


lemma applyBuild_publish_reuse:
  assumes "shouldPublish (Publish data0)" and "canReuseUpload prior meta"
  shows "\<exists>r p. prior = Some p \<and> applyBuild_publish S user data0 prior lpkPath meta w = (Inr r, w) \<and>
           LPKURL r = LPKURL p \<and> UploadID r = UploadID p"
proof (cases prior)
  case None
  with assms(2) show ?thesis by (simp add: canReuseUpload_def)
next
  case (Some p)
  with assms show ?thesis by (simp add: applyBuild_publish_def Let_def)
qed

lemma applyBuild_publish_Inr:
  assumes "applyBuild_publish S user data0 prior lpkPath meta w = (Inr r, w')"
  shows "ID r = StringValue (Sprintf_dashes (meta_AppID meta) (meta_Version meta) (meta_SHA256 meta)) \<and>
         (\<not> shouldPublish (Publish data0) \<longrightarrow>
            SHA256 r = StringValue (meta_SHA256 meta) \<and> Version r = StringValue (meta_Version meta)) \<and>
         (shouldPublish (Publish data0) \<and> \<not> canReuseUpload prior meta \<longrightarrow>
            (\<exists>name u.
               UploadLPK S user name
                 (case Publish data0 of
                    None \<Rightarrow> meta_Version meta
                  | Some p \<Rightarrow>
                      if \<not> IsNull (pub_Version p) \<and> ValueString (pub_Version p) \<noteq> [] then
                        ValueString (pub_Version p)
                      else meta_Version meta)
                 lpkPath (dsk w) = Inr u \<and>
               SHA256 r = StringValue (if up_SHA256 u \<noteq> [] then up_SHA256 u else meta_SHA256 meta) \<and>
               Version r = StringValue (if up_Version u \<noteq> [] then up_Version u else meta_Version meta)))"
proof (cases "shouldPublish (Publish data0)")
  case False
  with assms show ?thesis by (auto simp: applyBuild_publish_def Let_def)
next
  case pub: True
  show ?thesis
  proof (cases "canReuseUpload prior meta")
    case True
    with pub assms show ?thesis
      by (cases prior) (auto simp: applyBuild_publish_def Let_def)
  next
    case False
    define name where "name =
      (case Publish data0 of
         None \<Rightarrow> meta_Name meta
       | Some p \<Rightarrow>
           if \<not> IsNull (pub_Name p) \<and> ValueString (pub_Name p) \<noteq> [] then ValueString (pub_Name p)
           else meta_Name meta)"
    define ver where "ver =
      (case Publish data0 of
         None \<Rightarrow> meta_Version meta
       | Some p \<Rightarrow>
           if \<not> IsNull (pub_Version p) \<and> ValueString (pub_Version p) \<noteq> [] then
             ValueString (pub_Version p)
           else meta_Version meta)"
    from pub False assms obtain u where
      u: "UploadLPK S user name ver lpkPath (dsk w) = Inr u"
      and r: "SHA256 r = (if up_SHA256 u \<noteq> [] then StringValue (up_SHA256 u)
                else StringValue (meta_SHA256 meta))"
        "Version r = (if up_Version u \<noteq> [] then StringValue (up_Version u)
                else StringValue (meta_Version meta))"
        "ID r = StringValue (Sprintf_dashes (meta_AppID meta) (meta_Version meta) (meta_SHA256 meta))"
      by (auto simp: applyBuild_publish_def Let_def client_UploadLPK_def name_def ver_def
          split: sum.splits)
    have "\<exists>name u. UploadLPK S user name ver lpkPath (dsk w) = Inr u \<and>
        SHA256 r = StringValue (if up_SHA256 u \<noteq> [] then up_SHA256 u else meta_SHA256 meta) \<and>
        Version r = StringValue (if up_Version u \<noteq> [] then up_Version u else meta_Version meta)"
      apply (rule exI [of _ name], rule exI [of _ u])
      using u r by simp
    with pub False r(3) show ?thesis unfolding ver_def by blast
  qed
qed

lemma ValueString_nonempty: "ValueString v \<noteq> [] \<Longrightarrow> \<not> IsNull v"
  by (cases v) simp_all

lemma meta_Version_effective:
  "meta_Version (runBuild_meta manifest sha base pub) = effective_version manifest pub"
  by (auto simp: runBuild_meta_def effective_version_def split: option.splits
      dest: ValueString_nonempty)

lemma upload_version_effective:
  "(case pub of
      None \<Rightarrow> effective_version manifest pub
    | Some p \<Rightarrow>
        if \<not> IsNull (pub_Version p) \<and> ValueString (pub_Version p) \<noteq> [] then
          ValueString (pub_Version p)
        else effective_version manifest pub) = effective_version manifest pub"
  by (auto simp: effective_version_def split: option.splits)


lemma prepareSource_both_uses_local:
  assumes "Source plan = Some src" and "Local src = Some l" and "Git src = Some g"
    and "ValueString (Path l) \<noteq> []"
  shows "prepareSource S (Source plan) w = (Inr (ValueString (Path l), None), w)"
  using assms by (auto simp: prepareSource_def dest: ValueString_nonempty)




lemma map_of_filter_neq: "map_of (filter (\<lambda>kv. fst kv \<noteq> k \<and> Q kv) xs) k = None"
  by (induction xs) auto

lemma remove_all_of_gone: "\<not> path_exists (remove_all_of d p) p"
proof (cases "p = []")
  case True
  then show ?thesis by (simp add: path_exists_def lookup_def is_dir_def)
next
  case False
  have l: "lookup (remove_all_of d p) p = None"
    using False by (simp add: lookup_def remove_all_of_def map_of_filter_neq)
  have "\<not> has_children (remove_all_of d p) p"
    using False by (auto simp: has_children_def remove_all_of_def list_ex_iff)
  with l show ?thesis by (simp add: path_exists_def is_dir_def)
qed

lemma os_RemoveAll_gone:
  "\<not> path_exists (dsk (os_RemoveAll p w)) p \<and> last (io_log (os_RemoveAll p w)) = EvRemoveAll p"
  by (simp add: os_RemoveAll_def remove_all_of_gone)

lemma prepareSource_git:
  assumes src: "Source data0 = Some src" "Local src = None" "Git src = Some g"
    and url: "ValueString (URL g) \<noteq> []"
    and tmp: "mkdir_temp S [] ''lpk-build-*'' (dsk w) = Inr tmp"
    and ps: "prepareSource S (Source data0) w = (r, w1)"
  shows "(\<exists>wd. r = Inr (wd, Some tmp)) \<or>
         ((\<exists>e. r = Inl e) \<and> (\<exists>w0. w1 = os_RemoveAll tmp w0))"
proof -
  obtain wt where mk: "os_MkdirTemp S [] ''lpk-build-*'' w = (Inr tmp, wt)"
    using tmp by (simp add: os_MkdirTemp_def)
  have nn: "\<not> IsNull (URL g)" using url by (rule ValueString_nonempty)
  obtain c w2 where cl: "Cmd_Run S ''git'' [''clone'', ValueString (URL g), ''repo''] tmp None wt = (c, w2)"
    by (cases "Cmd_Run S ''git'' [''clone'', ValueString (URL g), ''repo''] tmp None wt")
  show ?thesis
  proof (cases c)
    case (Some e)
    with ps src url nn mk cl show ?thesis by (auto simp: prepareSource_def)
  next
    case None
    obtain k w3 where co:
      "(if \<not> IsNull (Ref g) \<and> ValueString (Ref g) \<noteq> [] then
          Cmd_Run S ''git'' [''checkout'', ValueString (Ref g)] (Join [tmp, ''repo'']) None w2
        else (None, w2)) = (k, w3)"
      by (cases "(if \<not> IsNull (Ref g) \<and> ValueString (Ref g) \<noteq> [] then
          Cmd_Run S ''git'' [''checkout'', ValueString (Ref g)] (Join [tmp, ''repo'']) None w2
        else (None, w2))")
    from ps src url nn mk cl None co show ?thesis
      by (cases k) (auto simp: prepareSource_def Let_def)
  qed
qed

lemma space_rune_len: "r \<in> set space_runes \<Longrightarrow> r \<noteq> [] \<and> length r = utf8_len (hd r)"
  unfolding space_runes_def utf8_len_def by auto

lemma space_runes_prefix_free:
  assumes "r \<in> set space_runes" and "r' \<in> set space_runes" and "prefix r' (r @ rest)"
  shows "r' = r"
proof -
  from assms(1,2) have ne: "r \<noteq> []" "r' \<noteq> []"
    and len: "length r = utf8_len (hd r)" "length r' = utf8_len (hd r')"
    by (simp_all add: space_rune_len)
  from assms(3) obtain zs where zs: "r @ rest = r' @ zs" by (auto simp: prefix_def)
  with ne have "hd r = hd r'" by (metis hd_append2)
  with len have "length r = length r'" by simp
  with zs show ?thesis by simp
qed

lemma leading_space_rune:
  assumes "r \<in> set space_runes"
  shows "leading_space (r @ rest) = length r"
proof -
  have "prefix r (r @ rest)" by simp
  with assms have "\<exists>x \<in> set space_runes. prefix x (r @ rest)" by (rule bexI [rotated])
  then obtain r' where f: "find (\<lambda>x. prefix x (r @ rest)) space_runes = Some r'"
    by (cases "find (\<lambda>x. prefix x (r @ rest)) space_runes") (auto simp: find_None_iff)
  then have "r' \<in> set space_runes" and "prefix r' (r @ rest)"
    by (auto simp: find_Some_iff)
  with assms have "r' = r" by (simp add: space_runes_prefix_free)
  with f show ?thesis by (simp add: leading_space_def)
qed


lemma TrimLeftSpace_runes:
  "set rs \<subseteq> set space_runes \<Longrightarrow> TrimLeftSpace (concat rs) = []"
proof (induction rs)
  case Nil
  show ?case by (subst TrimLeftSpace.simps) (simp add: leading_space_def space_runes_def)
next
  case (Cons r rs)
  then have r: "r \<in> set space_runes" by simp
  then have "r \<noteq> []" by (simp add: space_rune_len)
  with leading_space_rune [OF r, of "concat rs"] Cons show ?case
    by (subst TrimLeftSpace.simps) simp
qed

lemma TrimRightSpace_Nil: "TrimRightSpace [] = []"
  by (subst TrimRightSpace.simps) (simp add: trailing_space_def space_runes_def)

lemma TrimSpace_whitespace:
  "set rs \<subseteq> set space_runes \<Longrightarrow> TrimSpace (concat rs) = []"
  by (simp add: TrimSpace_def TrimLeftSpace_runes TrimRightSpace_Nil)

lemma leading_space_0_iff: "leading_space s = 0 \<longleftrightarrow> (\<forall>r \<in> set space_runes. \<not> prefix r s)"
  by (auto simp: leading_space_def find_None_iff find_Some_iff space_rune_len split: option.splits)

lemma trailing_space_0_iff: "trailing_space s = 0 \<longleftrightarrow> (\<forall>r \<in> set space_runes. \<not> suffix r s)"
  by (auto simp: trailing_space_def find_None_iff find_Some_iff space_rune_len split: option.splits)

lemma leading_space_TrimLeftSpace: "leading_space (TrimLeftSpace s) = 0"
  by (induction s rule: TrimLeftSpace.induct) (subst TrimLeftSpace.simps, simp)

lemma trailing_space_TrimRightSpace: "trailing_space (TrimRightSpace s) = 0"
  by (induction s rule: TrimRightSpace.induct) (subst TrimRightSpace.simps, simp)

lemma prefix_TrimRightSpace: "prefix (TrimRightSpace s) s"
proof (induction s rule: TrimRightSpace.induct)
  case (1 s)
  show ?case
  proof (cases "trailing_space s = 0")
    case True
    then show ?thesis by (subst TrimRightSpace.simps) simp
  next
    case False
    with 1 have "prefix (TrimRightSpace (take (length s - trailing_space s) s))
        (take (length s - trailing_space s) s)" by simp
    moreover have "prefix (take (length s - trailing_space s) s) s" by (rule take_is_prefix)
    ultimately have "prefix (TrimRightSpace (take (length s - trailing_space s) s)) s"
      by (rule prefix_order.trans)
    with False show ?thesis by (subst TrimRightSpace.simps) simp
  qed
qed

lemma TrimSpace_trimmed: "leading_space (TrimSpace s) = 0 \<and> trailing_space (TrimSpace s) = 0"
proof -
  have "\<forall>r \<in> set space_runes. \<not> prefix r (TrimLeftSpace s)"
    using leading_space_TrimLeftSpace [of s] by (simp add: leading_space_0_iff)
  moreover have "prefix (TrimSpace s) (TrimLeftSpace s)"
    unfolding TrimSpace_def by (rule prefix_TrimRightSpace)
  ultimately have "\<forall>r \<in> set space_runes. \<not> prefix r (TrimSpace s)"
    using prefix_order.trans by blast
  then show ?thesis
    by (simp add: leading_space_0_iff TrimSpace_def trailing_space_TrimRightSpace)
qed

lemma TrimSpace_id: "leading_space s = 0 \<Longrightarrow> trailing_space s = 0 \<Longrightarrow> TrimSpace s = s"
  by (simp add: TrimSpace_def TrimLeftSpace.simps [of s] TrimRightSpace.simps [of s])

lemma no_dot_rune: "r \<in> set space_runes \<Longrightarrow> hd r \<noteq> CHR ''.''"
  unfolding space_runes_def by auto

lemma TrimSpace_dot:
  assumes "leading_space t = 0" and "trailing_space t = 0"
  shows "TrimSpace (CHR ''.'' # t) = CHR ''.'' # t"
proof (rule TrimSpace_id)
  show "leading_space (CHR ''.'' # t) = 0"
    unfolding leading_space_0_iff
  proof
    fix r assume r: "r \<in> set space_runes"
    then have "r \<noteq> []" "hd r \<noteq> CHR ''.''" by (simp_all add: space_rune_len no_dot_rune)
    then show "\<not> prefix r (CHR ''.'' # t)" by (cases r) auto
  qed
  show "trailing_space (CHR ''.'' # t) = 0"
    unfolding trailing_space_0_iff
  proof
    fix r assume r: "r \<in> set space_runes"
    then have ne: "r \<noteq> []" "hd r \<noteq> CHR ''.''" by (simp_all add: space_rune_len no_dot_rune)
    from r assms(2) have "\<not> suffix r t" by (simp add: trailing_space_0_iff)
    with ne show "\<not> suffix r (CHR ''.'' # t)" by (cases r) (auto simp: suffix_Cons)
  qed
qed

lemma reads_of_simps [simp]:
  "reads_of [] = []"
  "reads_of (EvReadFile p # evs) = p # reads_of evs"
  "reads_of (EvStat p # evs) = reads_of evs"
  "reads_of (EvWriteFile p b m # evs) = reads_of evs"
  "reads_of (EvWalkDir p # evs) = reads_of evs"
  by (simp_all add: reads_of_def)

lemma reads_of_append [simp]: "reads_of (xs @ ys) = reads_of xs @ reads_of ys"
  by (simp add: reads_of_def List.map_filter_def)

lemma renderTemplateFile_None_log:
  assumes "renderTemplateFile S p x v w = (None, w')"
  shows "\<exists>evs. io_log w' = io_log w @ evs \<and> reads_of evs = [p]"
  using assms
  by (auto simp: renderTemplateFile_def Let_def os_ReadFile_def os_Stat_def os_WriteFile_def
      split: sum.splits prod.splits option.splits)

lemma renderTemplateFiles_visit:
  "renderTemplateFiles S baseDir extension envVars w =
     filepath_WalkDir baseDir
       (render_visit S (if extension = [] then defaultTemplateExtension else extension) envVars) w"
  by (simp add: renderTemplateFiles_def Let_def)

lemma walk_list_reads:
  "walk_list (render_visit S ext envVars) snap ks w = (None, w') \<Longrightarrow>
   \<exists>evs. io_log w' = io_log w @ evs \<and> reads_of evs = filter (is_template snap ext) ks"
proof (induction ks arbitrary: w)
  case Nil
  then show ?case by simp
next
  case (Cons k ks)
  let ?cb = "render_visit S ext envVars"
  show ?case
  proof (cases "\<exists>m. map_of (entries snap) k = Some (DirNode m)")
    case True
    then obtain m where m: "map_of (entries snap) k = Some (DirNode m)" by blast
    have v: "\<And>w0. ?cb k (Some \<lparr>de_Name = Base k, de_IsDir = True\<rparr>) None w0 = (None, w0)"
      by (simp add: render_visit_def)
    have e: "\<And>w0 err. ?cb k (Some \<lparr>de_Name = Base k, de_IsDir = True\<rparr>) (Some err) w0 = (Some err, w0)"
      by (simp add: render_visit_def)
    from Cons.prems m v e have "walk_list ?cb snap ks w = (None, w')"
      by (simp split: if_splits)
    moreover from m have "\<not> is_template snap ext k" by (simp add: is_template_def)
    ultimately show ?thesis using Cons.IH by simp
  next
    case False
    then have nd: "(case map_of (entries snap) k of Some (DirNode m) \<Rightarrow> False | _ \<Rightarrow> True)"
      by (auto split: option.splits fnode.splits)
    obtain r1 w1 where c: "?cb k (Some \<lparr>de_Name = Base k, de_IsDir = False\<rparr>) None w = (r1, w1)"
      by (cases "?cb k (Some \<lparr>de_Name = Base k, de_IsDir = False\<rparr>) None w")
    from Cons.prems False c have r1: "r1 = None" and rest: "walk_list ?cb snap ks w1 = (None, w')"
      by (auto split: option.splits fnode.splits)
    from Cons.IH [OF rest] obtain evs where
      evs: "io_log w' = io_log w1 @ evs" "reads_of evs = filter (is_template snap ext) ks"
      by blast
    show ?thesis
    proof (cases "suffix ext (Base k)")
      case True
      with c r1 have "renderTemplateFile S k ext envVars w = (None, w1)"
        by (simp add: render_visit_def HasSuffix_def)
      from renderTemplateFile_None_log [OF this] obtain evs1 where
        "io_log w1 = io_log w @ evs1" "reads_of evs1 = [k]" by blast
      moreover from True nd have "is_template snap ext k" by (simp add: is_template_def)
      ultimately show ?thesis using evs by simp
    next
      case False
      with c have "w1 = w" by (simp add: render_visit_def HasSuffix_def)
      moreover from False have "\<not> is_template snap ext k" by (simp add: is_template_def)
      ultimately show ?thesis using evs by simp
    qed
  qed
qed

lemma renderTemplateFiles_reads:
  assumes "renderTemplateFiles S baseDir ext envVars w = (None, w')" and "ext \<noteq> []"
    and "is_dir (dsk w) baseDir"
  shows "template_reads w w' = filter (is_template (dsk w) ext) (walk_paths (dsk w) baseDir)"
proof -
  let ?cb = "render_visit S ext envVars"
  have v: "\<And>w0 n. ?cb baseDir (Some \<lparr>de_Name = n, de_IsDir = True\<rparr>) None w0 = (None, w0)"
    by (simp add: render_visit_def)
  from assms have ok: "baseDir \<noteq> []" "path_exists (dsk w) baseDir" "Clean baseDir \<notin> faulty (dsk w)"
    by (auto simp: renderTemplateFiles_visit filepath_WalkDir_def Let_def render_visit_def
        path_exists_def is_dir_def split: if_splits)
  with assms v have "walk_list ?cb (dsk w) (walk_paths (dsk w) baseDir) (emit (EvWalkDir baseDir) w) = (None, w')"
    by (simp add: renderTemplateFiles_visit filepath_WalkDir_def Let_def)
  from walk_list_reads [OF this] show ?thesis
    by (auto simp: template_reads_def)
qed

lemma resolveTemplateExtension_nonempty: "resolveTemplateExtension env \<noteq> []"
  by (auto simp: resolveTemplateExtension_def defaultTemplateExtension_def Let_def HasPrefix_def
      split: option.splits)

lemma resolve_value:
  "resolveTemplateExtension (Some \<lparr>Variables = vs, TemplateExtension = StringValue s\<rparr>) =
     (if TrimSpace s = [] then ''.tmpl''
      else if prefix ''.'' (TrimSpace s) then TrimSpace s else ''.'' @ TrimSpace s)"
  by (simp add: resolveTemplateExtension_def defaultTemplateExtension_def Let_def HasPrefix_def)







lemma path_under_irrefl: "\<not> path_under k k"
  by (auto simp: path_under_def)

lemma under_file_iff:
  "under_file d p \<longleftrightarrow>
     (\<exists>k c m pm. map_of (entries d) k = Some (RegFile c m pm) \<and> path_under k (Clean p))"
proof
  assume "under_file d p"
  then obtain k where "path_under k (Clean p)"
    and "case map_of (entries d) k of Some (RegFile c m pm) \<Rightarrow> True | _ \<Rightarrow> False"
    by (auto simp: under_file_def list_ex_iff)
  then show "\<exists>k c m pm. map_of (entries d) k = Some (RegFile c m pm) \<and> path_under k (Clean p)"
    by (auto split: option.splits fnode.splits)
next
  assume "\<exists>k c m pm. map_of (entries d) k = Some (RegFile c m pm) \<and> path_under k (Clean p)"
  then obtain k c m pm where k: "map_of (entries d) k = Some (RegFile c m pm)" "path_under k (Clean p)"
    by blast
  from k(1) have "k \<in> set (map fst (entries d))"
    by (metis domI dom_map_of_conv_image_fst set_map)
  with k show "under_file d p" by (auto simp: under_file_def list_ex_iff)
qed

lemma under_file_update:
  assumes "\<not> under_file d p"
  shows "\<not> under_file (d\<lparr>entries := AList.update (Clean p) v (AList.delete q (entries d))\<rparr>) p"
    and "\<not> under_file (d\<lparr>entries := AList.update (Clean p) v (entries d)\<rparr>) p"
  using assms path_under_irrefl [of "Clean p"]
  by (auto simp: under_file_iff update_conv' delete_conv' split: if_splits)


lemma drop_Suc_takeWhile: "drop (Suc (length (takeWhile P xs))) xs = tl (dropWhile P xs)"
  by (induction xs) auto

lemma environ_step_parse:
  "environ_step vals pair =
     (case parse_pair pair of None \<Rightarrow> vals | Some (k, v) \<Rightarrow> AList.update k v vals)"
proof (cases "CHR ''='' \<in> set pair")
  case False
  then have "dropWhile (\<lambda>c. c \<noteq> CHR ''='') pair = []" by (auto simp: dropWhile_eq_Nil_conv)
  with False show ?thesis by (simp add: environ_step_def parse_pair_def Index_def Let_def)
next
  case True
  then have ne: "dropWhile (\<lambda>c. c \<noteq> CHR ''='') pair \<noteq> []" by (auto simp: dropWhile_eq_Nil_conv)
  have tk: "take (length (takeWhile (\<lambda>c. c \<noteq> CHR ''='') pair)) pair = takeWhile (\<lambda>c. c \<noteq> CHR ''='') pair"
    by (metis takeWhile_eq_take)
  show ?thesis
    using True ne tk
    by (auto simp: environ_step_def parse_pair_def Index_def Let_def drop_Suc_takeWhile)
qed


lemma map_of_environ_step:
  "map_of (environ_step vals pair) =
     (case parse_pair pair of None \<Rightarrow> map_of vals | Some (k, v) \<Rightarrow> (map_of vals)(k \<mapsto> v))"
  by (simp add: environ_step_parse update_conv' split: option.splits)

lemma distinct_environ_step:
  "distinct (map fst vals) \<Longrightarrow> distinct (map fst (environ_step vals pair))"
  by (simp add: environ_step_parse distinct_update split: option.splits)

lemma map_of_foldl_environ:
  "map_of (foldl environ_step vals env) = map_of vals ++ map_of (rev (List.map_filter parse_pair env))"
proof (induction env arbitrary: vals)
  case Nil
  show ?case by (simp add: List.map_filter_simps)
next
  case (Cons pair env)
  show ?case
    by (cases "parse_pair pair")
      (auto simp: Cons map_of_environ_step List.map_filter_simps map_add_upd_left fun_eq_iff
        map_add_def split: option.splits)
qed

lemma distinct_foldl_environ:
  "distinct (map fst vals) \<Longrightarrow> distinct (map fst (foldl environ_step vals env))"
  by (induction env arbitrary: vals) (simp_all add: distinct_environ_step)

lemma map_of_foldl_update:
  "map_of (foldl (\<lambda>vs kv. AList.update (fst kv) (snd kv) vs) vals custom) =
     map_of vals ++ map_of (rev custom)"
proof (induction custom arbitrary: vals)
  case Nil
  show ?case by simp
next
  case (Cons kv custom)
  show ?case
    by (cases kv) (auto simp: Cons update_conv' fun_eq_iff map_add_def split: option.splits)
qed

lemma distinct_foldl_update:
  "distinct (map fst vals) \<Longrightarrow>
   distinct (map fst (foldl (\<lambda>vs kv. AList.update (fst kv) (snd kv) vs) vals custom))"
  by (induction custom arbitrary: vals) (simp_all add: distinct_update)

lemma map_of_rev_distinct: "distinct (map fst xs) \<Longrightarrow> map_of (rev xs) = map_of xs"
proof (induction xs)
  case Nil
  show ?case by simp
next
  case (Cons x xs)
  then have "fst x \<notin> dom (map_of xs)" by (auto simp: dom_map_of_conv_image_fst)
  with Cons show ?case
    by (cases x) (auto simp: fun_eq_iff map_add_def split: option.splits)
qed

lemma sort_distinct_keys:
  assumes "distinct (map fst vals)"
  shows "sort (map fst vals) = sorted_list_of_set (dom (map_of vals))"
proof -
  have "dom (map_of vals) = set (map fst vals)" by (simp add: dom_map_of_conv_image_fst)
  moreover from assms have "remdups (map fst vals) = map fst vals" by (rule distinct_remdups_id)
  ultimately show ?thesis by (simp only: sorted_list_of_set_sort_remdups)
qed

lemma commandEnvironment_overlay:
  assumes "custom \<noteq> []" and "distinct (map fst custom)"
  shows "commandEnvironment custom env = Some (spec_environment env custom)"
proof -
  define vals0 where "vals0 = foldl environ_step [] env"
  define vals where "vals = foldl (\<lambda>vs kv. AList.update (fst kv) (snd kv) vs) vals0 custom"
  define inh where "inh = List.map_filter parse_pair env"
  have d0: "distinct (map fst vals0)" unfolding vals0_def by (rule distinct_foldl_environ) simp
  then have d: "distinct (map fst vals)" unfolding vals_def by (rule distinct_foldl_update)
  have m0: "map_of vals0 = map_of (rev inh)"
    unfolding vals0_def inh_def by (simp add: map_of_foldl_environ)
  have m: "map_of vals = map_of (rev inh) ++ map_of custom"
    unfolding vals_def
    by (simp add: map_of_foldl_update m0 map_of_rev_distinct [OF assms(2)])
  have "dom (map_of vals) = set (map fst inh @ map fst custom)"
    unfolding m by (auto simp: dom_map_of_conv_image_fst)
  then have keys: "sort (map fst vals) = sort (remdups (map fst inh @ map fst custom))"
    using sort_distinct_keys [OF d] by (simp only: sorted_list_of_set_sort_remdups)
  have vs: "\<And>key. (case map_of vals key of Some v \<Rightarrow> v | None \<Rightarrow> []) =
      (case map_of custom key of
         Some v \<Rightarrow> v
       | None \<Rightarrow> (case map_of (rev inh) key of Some v \<Rightarrow> v | None \<Rightarrow> []))"
    unfolding m by (simp add: map_add_def split: option.splits)
  have "commandEnvironment custom env =
      Some (map (\<lambda>key. key @ ''='' @ (case map_of vals key of Some v \<Rightarrow> v | None \<Rightarrow> []))
              (sort (map fst vals)))"
    using assms(1) by (simp add: commandEnvironment_def Let_def vals_def vals0_def)
  also have "\<dots> = Some (spec_environment env custom)"
    unfolding keys vs inh_def by (simp add: spec_environment_def Let_def)
  finally show ?thesis .
qed

lemma log_grows_foldl_emit:
  "\<exists>evs. io_log (foldl (\<lambda>w' m. emit (f m) w') w0 ms) = io_log w0 @ evs"
proof (induction ms arbitrary: w0)
  case Nil
  show ?case by simp
next
  case (Cons m ms)
  from Cons [of "emit (f m) w0"] obtain evs where
    "io_log (foldl (\<lambda>w' m. emit (f m) w') (emit (f m) w0) ms) = io_log (emit (f m) w0) @ evs"
    by blast
  then show ?case by simp
qed

lemma log_grows_findLatestLPK:
  "findLatestLPK S dir w = (r, w') \<Longrightarrow> \<exists>evs. io_log w' = io_log w @ evs"
  using log_grows_foldl_emit [of EvStat "emit (EvGlob (Join [dir, ''*.lpk''])) w"]
  by (auto simp: findLatestLPK_def filepath_Glob_def Let_def split: sum.splits if_splits)

lemma log_grows_os_Rename: "os_Rename a b w = (r, w') \<Longrightarrow> \<exists>evs. io_log w' = io_log w @ evs"
  by (auto simp: os_Rename_def split: sum.splits)

lemma log_grows_runBuild_collect:
  assumes "runBuild_collect S path ap w = (r, w')"
  shows "\<exists>evs. io_log w' = io_log w @ evs"
proof -
  obtain f w2 where fl: "findLatestLPK S path w = (f, w2)" by (cases "findLatestLPK S path w")
  from log_grows_findLatestLPK [OF fl] obtain e2 where e2: "io_log w2 = io_log w @ e2" by blast
  show ?thesis
  proof (cases f)
    case (Inl e)
    with assms fl have "w' = w2" by (simp add: runBuild_collect_def)
    with e2 show ?thesis by simp
  next
    case (Inr out)
    show ?thesis
    proof (cases "out = ap")
      case True
      with assms fl Inr have "w' = w2" by (simp add: runBuild_collect_def)
      with e2 show ?thesis by simp
    next
      case False
      obtain rr w3 where rn: "os_Rename out ap w2 = (rr, w3)" by (cases "os_Rename out ap w2")
      from log_grows_os_Rename [OF rn] obtain e3 where e3: "io_log w3 = io_log w2 @ e3" by blast
      from assms fl Inr False rn have "w' = w3"
        by (cases rr) (simp_all add: runBuild_collect_def)
      with e2 e3 show ?thesis by simp
    qed
  qed
qed

lemma runBuild_invoke_exec:
  assumes "runBuild_invoke S path build envVars ap w = (r, w')"
  shows "\<exists>cmd evs. io_log w' =
           io_log w @ EvExec ''sh'' [''-c'', cmd] path
             (if length envVars > 0 then commandEnvironment envVars (environ w) else None) # evs"
proof -
  define cmd where "cmd =
    (case build of
       None \<Rightarrow> ''npx lzc-cli project build .''
     | Some b \<Rightarrow>
         if \<not> IsNull (Command b) \<and> ValueString (Command b) \<noteq> [] then ValueString (Command b)
         else ''npx lzc-cli project build .'')"
  define env where "env = (if length envVars > 0 then commandEnvironment envVars (environ w) else None)"
  obtain c w1 where run: "Cmd_Run S ''sh'' [''-c'', cmd] path env w = (c, w1)"
    by (cases "Cmd_Run S ''sh'' [''-c'', cmd] path env w")
  then have l1: "io_log w1 = io_log w @ [EvExec ''sh'' [''-c'', cmd] path env]"
    by (auto simp: Cmd_Run_def split: prod.splits)
  have "\<exists>evs. io_log w' = io_log w1 @ evs"
  proof (cases c)
    case (Some e)
    with assms run have "w' = w1" by (simp add: runBuild_invoke_def Let_def cmd_def env_def)
    then show ?thesis by simp
  next
    case None
    with assms run have "runBuild_collect S path ap w1 = (r, w')"
      by (simp add: runBuild_invoke_def Let_def cmd_def env_def)
    then show ?thesis by (rule log_grows_runBuild_collect)
  qed
  with l1 show ?thesis unfolding env_def by auto
qed

lemma Trim_go_quote:
  assumes "key \<noteq> []" and "hd key \<noteq> CHR 0x22" and "last key \<noteq> CHR 0x22"
  shows "Trim (go_quote key) [CHR 0x22] = key"
proof -
  from assms(1,2) have a: "dropWhile (\<lambda>c. c \<in> set [CHR 0x22]) (go_quote key) = key @ [CHR 0x22]"
    by (cases key) (simp_all add: go_quote_def)
  from assms(1,3) have b: "dropWhile (\<lambda>c. c \<in> set [CHR 0x22]) (rev (key @ [CHR 0x22])) = rev key"
    by (cases "rev key") (auto simp: last_rev hd_rev)
  show ?thesis unfolding Trim_def a b by simp
qed

lemma formatTemplateError_pointer:
  assumes "key \<noteq> []" and "hd key \<noteq> CHR 0x22" and "last key \<noteq> CHR 0x22"
  shows "formatTemplateError
           (ExecErrorPtr name (ErrorString (''map has no entry for key '' @ go_quote key))) =
         ErrorString (''environment variable '' @ key @ '' not provided'')"
proof -
  have "extractMissingKey (Some (ErrorString (''map has no entry for key '' @ go_quote key))) =
      Trim (go_quote key) [CHR 0x22]"
    by (simp add: extractMissingKey_def HasPrefix_def Let_def)
  with assms show ?thesis
    by (simp add: formatTemplateError_def Trim_go_quote Let_def)
qed

subsection \<open>Paths, sorting and renaming\<close>

lemma split_sep_ne: "split_sep s \<noteq> []"
  by (induction s) (auto split: list.splits)

lemma split_sep_plain: "CHR ''/'' \<notin> set s \<Longrightarrow> split_sep s = [s]"
  by (induction s) auto

lemma split_sep_append: "split_sep (a @ CHR ''/'' # s) = split_sep a @ split_sep s"
  using split_sep_ne by (induction a) (auto split: list.splits)

lemma join_sep_snoc: "join_sep (xs @ [s]) = (if xs = [] then s else join_sep xs @ CHR ''/'' # s)"
  by (induction xs rule: join_sep.induct) auto

lemma Base_plain: "CHR ''/'' \<notin> set s \<Longrightarrow> s \<noteq> [] \<Longrightarrow> Base s = s"
proof -
  assume a: "CHR ''/'' \<notin> set s" "s \<noteq> []"
  then have d: "dropWhile (\<lambda>c. c = CHR ''/'') (rev s) = rev s"
    by (cases "rev s") auto
  have t: "takeWhile (\<lambda>c. c \<noteq> CHR ''/'') (rev s) = rev s"
    using a by (auto simp: takeWhile_eq_all_conv)
  have "Base s = (if s = [] then ''.'' else if s = [] then ''/'' else s)"
    by (simp only: Base_def Let_def d rev_rev_ident t)
  with a show ?thesis by simp
qed

lemma Base_last: "CHR ''/'' \<notin> set s \<Longrightarrow> s \<noteq> [] \<Longrightarrow> Base (x @ CHR ''/'' # s) = s"
proof -
  assume a: "CHR ''/'' \<notin> set s" "s \<noteq> []"
  then have d: "dropWhile (\<lambda>c. c = CHR ''/'') (rev s @ CHR ''/'' # rev x) = rev s @ CHR ''/'' # rev x"
    by (cases "rev s") auto
  have t: "takeWhile (\<lambda>c. c \<noteq> CHR ''/'') (rev s @ CHR ''/'' # rev x) = rev s"
    using a by (subst takeWhile_append2) auto
  have "Base (x @ CHR ''/'' # s) =
          (if x @ CHR ''/'' # s = [] then ''.''
           else if x @ CHR ''/'' # s = [] then ''/'' else rev (rev s))"
    by (simp only: Base_def Let_def rev_append rev.simps append_assoc append_Cons append_Nil
                   d rev_rev_ident t)
  then show ?thesis by simp
qed

lemma Clean_last:
  assumes s: "CHR ''/'' \<notin> set s" "s \<noteq> []" "s \<noteq> ''.''" "s \<noteq> ''..''"
  shows "Clean (a @ CHR ''/'' # s) = s \<or> (\<exists>x. Clean (a @ CHR ''/'' # s) = x @ CHR ''/'' # s)"
proof -
  let ?r = "hd (a @ CHR ''/'' # s) = CHR ''/''"
  let ?st = "foldl (clean_step ?r) [] (split_sep a)"
  have f: "foldl (clean_step ?r) [] (split_sep (a @ CHR ''/'' # s)) = s # ?st"
    using s by (simp add: split_sep_append split_sep_plain clean_step_def)
  have b: "join_sep (rev (s # ?st)) = (if ?st = [] then s else join_sep (rev ?st) @ CHR ''/'' # s)"
    using join_sep_snoc [of "rev ?st" s] by simp
  show ?thesis
  proof (cases ?r)
    case True
    then have "Clean (a @ CHR ''/'' # s) = CHR ''/'' # join_sep (rev (s # ?st))"
      unfolding Clean_def f [symmetric] by (simp add: Let_def)
    then have "\<exists>x. Clean (a @ CHR ''/'' # s) = x @ CHR ''/'' # s"
      unfolding b
      by (cases "?st = []") (auto intro: exI [of _ "[]"] exI [of _ "CHR ''/'' # join_sep (rev ?st)"])
    then show ?thesis ..
  next
    case False
    have ne: "join_sep (rev (s # ?st)) \<noteq> []" unfolding b using s by simp
    from False ne have "Clean (a @ CHR ''/'' # s) = join_sep (rev (s # ?st))"
      unfolding Clean_def f [symmetric] by (simp add: Let_def)
    then show ?thesis unfolding b
      by (cases "?st = []") (auto intro: exI [of _ "join_sep (rev ?st)"])
  qed
qed

lemma Base_Join_lpk: "Base (Join [dir, ''*.lpk'']) = ''*.lpk''"
proof (cases "dir = []")
  case True
  have "Base (Join [[], ''*.lpk'']) = ''*.lpk''" by code_simp
  with True show ?thesis by simp
next
  case False
  then have j: "Join [dir, ''*.lpk''] = Clean (dir @ CHR ''/'' # ''*.lpk'')"
    by (simp add: Join_def)
  have s: "CHR ''/'' \<notin> set ''*.lpk''" "''*.lpk'' \<noteq> []" "''*.lpk'' \<noteq> ''.''" "''*.lpk'' \<noteq> ''..''"
    by simp_all
  from Clean_last [OF s, of dir] show ?thesis
    unfolding j using Base_plain [OF s(1,2)] Base_last [OF s(1,2)] by auto
qed

lemma set_join_sep: "set (join_sep xs) \<subseteq> (\<Union>x \<in> set xs. set x) \<union> {CHR ''/''}"
  by (induction xs rule: join_sep.induct) auto

lemma set_split_sep: "\<forall>x \<in> set (split_sep p). set x \<subseteq> set p"
proof (induction p)
  case Nil
  show ?case by simp
next
  case (Cons c cs)
  show ?case
  proof (cases "c = CHR ''/''")
    case True
    with Cons show ?thesis by auto
  next
    case False
    show ?thesis
    proof (cases "split_sep cs")
      case Nil
      with False show ?thesis by simp
    next
      case (Cons y ys)
      with \<open>\<forall>x\<in>set (split_sep cs). set x \<subseteq> set cs\<close>
      have "set y \<subseteq> set cs" "\<forall>x \<in> set ys. set x \<subseteq> set cs" by simp_all
      with False Cons show ?thesis by auto
    qed
  qed
qed

lemma set_clean_step: "set (clean_step r st e) \<subseteq> set st \<union> {e}"
  by (auto simp: clean_step_def split: list.splits if_splits)

lemma set_foldl_clean_step: "set (foldl (clean_step r) st xs) \<subseteq> set st \<union> set xs"
proof (induction xs arbitrary: st)
  case Nil
  show ?case by simp
next
  case (Cons e xs)
  from Cons [of "clean_step r st e"] set_clean_step [of r st e] show ?case by auto
qed

lemma set_clean_body:
  "set (join_sep (rev (foldl (clean_step r) [] (split_sep p)))) \<subseteq> set p \<union> {CHR ''/''}"
proof -
  have "\<forall>x \<in> set (foldl (clean_step r) [] (split_sep p)). set x \<subseteq> set p"
    using set_foldl_clean_step [of r "[]" "split_sep p"] set_split_sep [of p] by auto
  with set_join_sep [of "rev (foldl (clean_step r) [] (split_sep p))"] show ?thesis by auto
qed

lemma set_Clean: "set (Clean p) \<subseteq> set p \<union> {CHR ''.'', CHR ''/''}"
  using set_clean_body [of "hd p = CHR ''/''" p]
  by (auto simp: Clean_def Let_def)

lemma hasMeta_Clean: "hasMeta (Clean p) \<Longrightarrow> hasMeta p"
  using set_Clean [of p] by (auto simp: hasMeta_def)

lemma Dir_last: "CHR ''/'' \<notin> set s \<Longrightarrow> Dir (x @ CHR ''/'' # s) = Clean (x @ ''/'')"
proof -
  assume a: "CHR ''/'' \<notin> set s"
  then have "dropWhile (\<lambda>c. c \<noteq> CHR ''/'') (rev s @ CHR ''/'' # rev x) = CHR ''/'' # rev x"
    by (subst dropWhile_append2) auto
  then show ?thesis by (simp add: Dir_def)
qed

lemma Dir_plain: "CHR ''/'' \<notin> set s \<Longrightarrow> Dir s = ''.''"
proof -
  assume a: "CHR ''/'' \<notin> set s"
  then have "dropWhile (\<lambda>c. c \<noteq> CHR ''/'') (rev s) = []" by auto
  then show ?thesis by (simp add: Dir_def Clean_def)
qed

lemma Clean_last_set:
  assumes s: "CHR ''/'' \<notin> set s" "s \<noteq> []" "s \<noteq> ''.''" "s \<noteq> ''..''"
  shows "Clean (a @ CHR ''/'' # s) = s \<or>
         (\<exists>x. Clean (a @ CHR ''/'' # s) = x @ CHR ''/'' # s \<and> set x \<subseteq> set a \<union> {CHR ''/''})"
proof -
  let ?r = "hd (a @ CHR ''/'' # s) = CHR ''/''"
  let ?st = "foldl (clean_step ?r) [] (split_sep a)"
  have f: "foldl (clean_step ?r) [] (split_sep (a @ CHR ''/'' # s)) = s # ?st"
    using s by (simp add: split_sep_append split_sep_plain clean_step_def)
  have b: "join_sep (rev (s # ?st)) = (if ?st = [] then s else join_sep (rev ?st) @ CHR ''/'' # s)"
    using join_sep_snoc [of "rev ?st" s] by simp
  have sub: "set (join_sep (rev ?st)) \<subseteq> set a \<union> {CHR ''/''}"
    by (rule set_clean_body)
  show ?thesis
  proof (cases ?r)
    case True
    then have c: "Clean (a @ CHR ''/'' # s) = CHR ''/'' # join_sep (rev (s # ?st))"
      unfolding Clean_def f [symmetric] by (simp add: Let_def)
    have "\<exists>x. Clean (a @ CHR ''/'' # s) = x @ CHR ''/'' # s \<and> set x \<subseteq> set a \<union> {CHR ''/''}"
    proof (cases "?st = []")
      case True
      with c b have "Clean (a @ CHR ''/'' # s) = [] @ CHR ''/'' # s" by simp
      then show ?thesis by (intro exI [of _ "[]"]) simp
    next
      case False
      with c b have "Clean (a @ CHR ''/'' # s) = (CHR ''/'' # join_sep (rev ?st)) @ CHR ''/'' # s"
        by simp
      with sub show ?thesis by (intro exI [of _ "CHR ''/'' # join_sep (rev ?st)"]) simp
    qed
    then show ?thesis ..
  next
    case False
    have ne: "join_sep (rev (s # ?st)) \<noteq> []" unfolding b using s by simp
    from False ne have c: "Clean (a @ CHR ''/'' # s) = join_sep (rev (s # ?st))"
      unfolding Clean_def f [symmetric] by (simp add: Let_def)
    show ?thesis
    proof (cases "?st = []")
      case True
      with c b show ?thesis by simp
    next
      case False
      with c b have "Clean (a @ CHR ''/'' # s) = join_sep (rev ?st) @ CHR ''/'' # s" by simp
      with sub show ?thesis by blast
    qed
  qed
qed

lemma hasMeta_lpk_dir: "hasMeta (lpk_dir dir) \<Longrightarrow> hasMeta dir"
proof (cases "dir = []")
  case True
  have "\<not> hasMeta (lpk_dir [])" by code_simp
  with True show "hasMeta (lpk_dir dir) \<Longrightarrow> hasMeta dir" by simp
next
  case False
  assume h: "hasMeta (lpk_dir dir)"
  from False have j: "Join [dir, ''*.lpk''] = Clean (dir @ CHR ''/'' # ''*.lpk'')"
    by (simp add: Join_def)
  have s: "CHR ''/'' \<notin> set ''*.lpk''" "''*.lpk'' \<noteq> []" "''*.lpk'' \<noteq> ''.''" "''*.lpk'' \<noteq> ''..''"
    by simp_all
  have nd: "\<not> hasMeta ''.''" by (simp add: hasMeta_def)
  from Clean_last_set [OF s, of dir] show "hasMeta dir"
  proof
    assume "Clean (dir @ CHR ''/'' # ''*.lpk'') = ''*.lpk''"
    then have "lpk_dir dir = ''.''"
      unfolding lpk_dir_def j using Dir_plain [OF s(1)] by simp
    with h nd show ?thesis by simp
  next
    assume "\<exists>x. Clean (dir @ CHR ''/'' # ''*.lpk'') = x @ CHR ''/'' # ''*.lpk'' \<and>
                set x \<subseteq> set dir \<union> {CHR ''/''}"
    then obtain x where x: "Clean (dir @ CHR ''/'' # ''*.lpk'') = x @ CHR ''/'' # ''*.lpk''"
      and sx: "set x \<subseteq> set dir \<union> {CHR ''/''}" by blast
    have "lpk_dir dir = Clean (x @ ''/'')"
      unfolding lpk_dir_def j x using Dir_last [OF s(1), of x] by simp
    with h have "hasMeta (x @ ''/'')" by (simp add: hasMeta_Clean)
    with sx show ?thesis by (auto simp: hasMeta_def)
  qed
qed

lemma set_insert_back: "set (insert_back lt x ys) = insert x (set ys)"
  by (induction ys) auto

lemma sorted_insert_back:
  "sorted (map f ys) \<Longrightarrow> sorted (map f (insert_back (\<lambda>a b. f a > f b) x ys))"
  for f :: "'a \<Rightarrow> nat"
  by (induction ys) (auto simp: set_insert_back)

lemma foldl_insert_back:
  fixes f :: "'a \<Rightarrow> nat"
  shows "sorted (map f acc) \<Longrightarrow>
         sorted (map f (foldl (\<lambda>acc x. insert_back (\<lambda>a b. f a > f b) x acc) acc xs)) \<and>
         set (foldl (\<lambda>acc x. insert_back (\<lambda>a b. f a > f b) x acc) acc xs) = set acc \<union> set xs"
  by (induction xs arbitrary: acc) (auto simp: sorted_insert_back set_insert_back)

lemma sort_Slice_latest:
  fixes f :: "'a \<Rightarrow> nat"
  assumes "xs \<noteq> []"
  shows "hd (sort_Slice (\<lambda>a b. f a > f b) xs) \<in> set xs \<and>
         (\<forall>m \<in> set xs. f m \<le> f (hd (sort_Slice (\<lambda>a b. f a > f b) xs)))"
proof -
  let ?acc = "foldl (\<lambda>acc x. insert_back (\<lambda>a b. f a > f b) x acc) [] xs"
  from foldl_insert_back [of f "[]" xs]
  have so: "sorted (map f ?acc)" and se: "set ?acc = set xs" by simp_all
  from se assms have ne: "?acc \<noteq> []" by auto
  then have h: "hd (sort_Slice (\<lambda>a b. f a > f b) xs) = last ?acc"
    by (simp add: sort_Slice_def hd_rev)
  have "last ?acc \<in> set xs" using ne se last_in_set by blast
  moreover have "\<forall>m \<in> set ?acc. f m \<le> f (last ?acc)"
  proof
    fix m assume "m \<in> set ?acc"
    then obtain i where i: "i < length ?acc" "?acc ! i = m" by (auto simp: in_set_conv_nth)
    have "map f ?acc ! i \<le> map f ?acc ! (length ?acc - 1)"
      using so i ne by (intro sorted_nth_mono) auto
    then show "f m \<le> f (last ?acc)" using i ne by (simp add: last_conv_nth)
  qed
  ultimately show ?thesis unfolding h using se by simp
qed

lemma rename_of_content:
  assumes "rename_of d src dst = Inr d'" and "read_of d src = Inr c"
  shows "read_of d' dst = Inr c"
proof -
  from assms(2) obtain m pm where l: "lookup d src = Some (RegFile c m pm)"
    by (auto simp: read_of_def split: if_splits option.splits fnode.splits)
  from assms(1) l have ne: "dst \<noteq> []" and nf: "Clean dst \<notin> faulty d"
    and nu: "\<not> under_file d dst"
    and d': "d' = d\<lparr>entries := AList.update (Clean dst) (RegFile c m pm)
                            (AList.delete (Clean src) (entries d))\<rparr>"
    by (auto simp: rename_of_def split: if_splits)
  have "lookup d' dst = Some (RegFile c m pm)"
    using ne unfolding d' by (simp add: lookup_def update_conv')
  moreover have "\<not> under_file d' dst"
    unfolding d' using nu by (rule under_file_update(1))
  ultimately show ?thesis using nf unfolding d' by (simp add: read_of_def)
qed

lemma dsk_foldl_emit: "dsk (foldl (\<lambda>w' m. emit (f m) w') w ms) = dsk w"
  by (induction ms arbitrary: w) auto

lemma findLatestLPK_latest:
  assumes plain: "\<not> hasMeta path"
    and readable: "lpk_dir path \<notin> faulty (dsk w)"
    and stats: "\<forall>m \<in> set (lpk_matches (dsk w) path). \<not> isl (stat_of (dsk w) m)"
  shows "(lpk_matches (dsk w) path = [] \<longrightarrow>
            findLatestLPK S path w =
              (Inl (ErrorString ''no .lpk artifact produced''), emit (EvGlob (Join [path, ''*.lpk''])) w)) \<and>
         (lpk_matches (dsk w) path \<noteq> [] \<longrightarrow>
            (\<exists>out w2. findLatestLPK S path w = (Inr out, w2) \<and> dsk w2 = dsk w \<and>
               out \<in> set (lpk_matches (dsk w) path) \<and>
               (\<forall>m \<in> set (lpk_matches (dsk w) path). mod_time (dsk w) m \<le> mod_time (dsk w) out)))"
proof -
  let ?pat = "Join [path, ''*.lpk'']"
  let ?ms = "lpk_matches (dsk w) path"
  let ?w1 = "emit (EvGlob ?pat) w"
  have nometa: "\<not> hasMeta (lpk_dir path)"
    using plain hasMeta_lpk_dir by blast
  have "\<not> hasMeta ''.lpk''" by (simp add: hasMeta_def)
  then have g: "glob_of S (dsk w) ?pat = Inr ?ms"
    using nometa readable
    by (simp add: glob_of_def Let_def Base_Join_lpk lpk_matches_def lpk_dir_def)
  then have fg: "filepath_Glob S ?pat w = (Inr ?ms, ?w1)"
    by (simp add: filepath_Glob_def)
  show ?thesis
  proof (intro conjI impI)
    assume "?ms = []"
    then show "findLatestLPK S path w = (Inl (ErrorString ''no .lpk artifact produced''), ?w1)"
      using fg by (simp add: findLatestLPK_def)
  next
    assume ne: "?ms \<noteq> []"
    show "\<exists>out w2. findLatestLPK S path w = (Inr out, w2) \<and> dsk w2 = dsk w \<and>
               out \<in> set ?ms \<and> (\<forall>m \<in> set ?ms. mod_time (dsk w) m \<le> mod_time (dsk w) out)"
    proof (cases "length ?ms < 2")
      case True
      with ne obtain m where m: "?ms = [m]" by (cases ?ms) auto
      have "findLatestLPK S path w = (Inr m, ?w1)"
        using fg m by (simp add: findLatestLPK_def)
      then show ?thesis using m by simp
    next
      case False
      let ?w2 = "foldl (\<lambda>w' m. emit (EvStat m) w') ?w1 ?ms"
      let ?out = "hd (sort_Slice (\<lambda>a b. mod_time (dsk w) a > mod_time (dsk w) b) ?ms)"
      have nx: "\<not> list_ex (\<lambda>m. isl (stat_of (dsk w) m)) ?ms"
        using stats by (simp add: list_ex_iff)
      have "findLatestLPK S path w = (Inr ?out, ?w2)"
        using fg False ne nx by (simp add: findLatestLPK_def Let_def)
      moreover have "dsk ?w2 = dsk w" by (simp add: dsk_foldl_emit)
      ultimately show ?thesis
        using sort_Slice_latest [OF ne, of "mod_time (dsk w)"] by blast
    qed
  qed
qed

subsection \<open>A build on a disk that holds the artifact\<close>

lemma read_of_stat_of: "read_of d p = Inr c \<Longrightarrow> \<exists>info. stat_of d p = Inr info"
  by (auto simp: read_of_def stat_of_def split: if_splits option.splits fnode.splits)

lemma runBuild_cached:
  assumes m: "read_of (dsk w) (Join [path, ''lzc-manifest.yml'']) = Inr bytes"
    and y: "yaml_Unmarshal S bytes = Inr manifest"
    and nv: "man_Name manifest \<noteq> []" "man_Version manifest \<noteq> []"
    and a: "read_of (dsk w)
              (Join [path, Sprintf_dashes (man_Name manifest) (man_Version manifest)
                             (sha256_hex S bytes) @ ''.lpk'']) = Inr c"
  shows "\<exists>w'. runBuild S path build pub envVars w =
           (Inr (Join [path, Sprintf_dashes (man_Name manifest) (man_Version manifest)
                               (sha256_hex S bytes) @ ''.lpk''],
                 runBuild_meta manifest (sha256_hex S c)
                   (Sprintf_dashes (man_Name manifest) (man_Version manifest) (sha256_hex S bytes)) pub),
            w') \<and>
           dsk w' = dsk w \<and>
           count_events is_build_command w' = count_events is_build_command w"
proof -
  let ?mp = "Join [path, ''lzc-manifest.yml'']"
  define base where "base = Sprintf_dashes (man_Name manifest) (man_Version manifest) (sha256_hex S bytes)"
  define ap where "ap = Join [path, base @ ''.lpk'']"
  let ?w1 = "emit (EvReadFile ?mp) w"
  let ?w2 = "emit (EvOpen ?mp) ?w1"
  let ?w3 = "emit (EvStat ap) ?w2"
  let ?w4 = "emit (EvOpen ap) ?w3"
  have r1: "readManifest S ?mp w = (Inr manifest, ?w1)"
    using m y by (simp add: readManifest_def os_ReadFile_def)
  have r2: "computeSHA S ?mp ?w1 = (Inr (sha256_hex S bytes), ?w2)"
    using m by (simp add: computeSHA_def os_Open_Copy_def)
  from a obtain info where "stat_of (dsk w) ap = Inr info"
    unfolding ap_def base_def by (auto dest: read_of_stat_of)
  then have r3: "runBuild_ensure S path build envVars ap ?w2 = (None, ?w3)"
    by (simp add: runBuild_ensure_def os_Stat_def)
  have r4: "computeSHA S ap ?w3 = (Inr (sha256_hex S c), ?w4)"
    using a unfolding ap_def base_def by (simp add: computeSHA_def os_Open_Copy_def)
  have "runBuild S path build pub envVars w =
      (Inr (ap, runBuild_meta manifest (sha256_hex S c) base pub), ?w4)"
    using r1 r2 r3 r4 nv by (simp add: runBuild_def Let_def ap_def base_def)
  then show ?thesis unfolding ap_def base_def by simp
qed

section \<open>The concrete run, evaluated\<close>

lemma demo_prep: "prepareSource demo_sys (Source demo_data) demo_world = (Inr (''/w'', None), demo_world)"
  by code_simp

lemma demo_render':
  "renderTemplateFiles demo_sys ''/w'' (resolveTemplateExtension (Env demo_data))
     (collectEnvVars (Env demo_data)) demo_world = (None, demo_walked)"
  unfolding demo_walked_def by code_simp

lemma demo_build':
  "runBuild demo_sys ''/w'' (Build demo_data) (Publish demo_data) (collectEnvVars (Env demo_data))
     demo_walked =
   (Inr (''/w/app-1.0.0-sha:name: app.lpk'', demo_meta),
    snd (runBuild demo_sys ''/w'' (Build demo_data) (Publish demo_data)
           (collectEnvVars (Env demo_data)) demo_walked))"
proof -
  have "fst (runBuild demo_sys ''/w'' (Build demo_data) (Publish demo_data)
     (collectEnvVars (Env demo_data)) demo_walked) = Inr (''/w/app-1.0.0-sha:name: app.lpk'', demo_meta)"
    by code_simp
  then show ?thesis by (simp add: prod_eq_iff)
qed

lemma demo_pub: "shouldPublish (Publish demo_data)"
  by code_simp

lemma demo_app:
  "fst (applyBuild demo_sys ''u1'' demo_data None demo_world) =
   Inr (demo_data\<lparr>ID := StringValue ''a1-1.0.0-sha:LPK'',
                   LPKURL := StringValue ''http://nas/app.lpk'',
                   SHA256 := StringValue ''remote-sha'',
                   AppID := StringValue ''a1'',
                   Version := StringValue ''9.9'',
                   LocalPath := StringValue ''/w/app-1.0.0-sha:name: app.lpk'',
                   UploadID := StringValue ''id1''\<rparr>)"
  by code_simp

lemma demo_git_fails:
  "fst (applyBuild demo_sys ''u1'' demo_git None demo_world) =
   Inl (Errorf_w ''source error: '' (Errorf_w ''git checkout failed: '' (ErrorString ''exit status 1'')))"
  by code_simp

lemma demo_j2_render:
  "fst (renderTemplateFiles demo_sys ''/w''
          (resolveTemplateExtension (Some \<lparr>Variables = [], TemplateExtension = StringValue ''j2''\<rparr>))
          [] demo_templates) = None"
  by code_simp

lemma demo_j2_reads:
  "filter (is_template (dsk demo_templates) ''.j2'') (walk_paths (dsk demo_templates) ''/w'') =
     [''/w/a.j2'', ''/w/sub/c.j2'']"
  by code_simp

lemma demo_j2_trim: "TrimSpace ''j2'' = ''j2''"
  by code_simp

lemma demo_w_dir: "is_dir (dsk demo_templates) ''/w''"
  by code_simp





lemma demo_custom_env:
  "spec_environment (environ demo_world) demo_custom =
     [''API_KEY=s3cret'', ''HOME=/root'', ''PATH=/opt/bin'']"
  by code_simp

lemma demo_lpks_matches: "lpk_matches (dsk demo_lpks) ''/w'' = [''/w/new.lpk'', ''/w/old.lpk'', ''/w/pkg.lpk'']"
  by code_simp


lemma demo_lpks_find: "fst (findLatestLPK demo_sys ''/w'' demo_lpks) = Inr ''/w/new.lpk''"
  by code_simp

lemma demo_lpks_collect: "fst (runBuild_collect demo_sys ''/w'' ''/w/app.lpk'' demo_lpks) = None"
  by code_simp

lemma demo_lpks_read: "read_of (dsk demo_lpks) ''/w/new.lpk'' = Inr ''NEW''"
  by code_simp

section \<open>Publish reuse\<close>

text \<open>
  Claim C3. Take an apply of the \<open>lpk_build\<close> resource that reaches the publish stage
  (the source is prepared, the templates are rendered, \<open>runBuild\<close> returns the artifact
  path and the metadata) with publishing enabled. The hash in the metadata is the digest
  of the artifact on disk. If the prior state exists, has a non-empty upload ID, a
  non-empty download URL and a recorded hash equal to the artifact's hash, then the whole
  apply makes no upload call and returns the prior download URL and upload ID unchanged.
  In every other case, in particular when the recorded hash differs from the artifact's
  hash, the apply calls \<open>UploadLPK\<close> exactly once.
\<close>

theorem applyBuild_reuses_upload:
  assumes prep: "prepareSource S (Source data0) w = (Inr (workdir, cleanup), w1)"
    and rend: "renderTemplateFiles S workdir (resolveTemplateExtension (Env data0))
           (collectEnvVars (Env data0)) w1 = (None, w2)"
    and bld: "runBuild S workdir (Build data0) (Publish data0) (collectEnvVars (Env data0)) w2 =
           (Inr (lpkPath, meta), w3)"
    and pub: "shouldPublish (Publish data0)"
    and app: "applyBuild S user data0 prior w = (res, w')"
  shows "(\<exists>c. read_of (dsk w3) lpkPath = Inr c \<and> meta_SHA256 meta = sha256_hex S c) \<and>
         (CanReuse_spec prior (meta_SHA256 meta) \<longrightarrow>
            count_events is_upload w' = count_events is_upload w \<and>
            (\<exists>r p. prior = Some p \<and> res = Inr r \<and> LPKURL r = LPKURL p \<and> UploadID r = UploadID p)) \<and>
         (\<not> CanReuse_spec prior (meta_SHA256 meta) \<longrightarrow>
            count_events is_upload w' = count_events is_upload w + 1) \<and>
         (\<forall>p. prior = Some p \<and> ValueString (SHA256 p) \<noteq> meta_SHA256 meta \<longrightarrow>
            count_events is_upload w' = count_events is_upload w + 1)"
proof -
  have git: "\<And>a d e. \<not> is_upload (EvExec ''git'' a d e)" by simp
  have sh: "\<And>a d e. \<not> is_upload (EvExec ''sh'' a d e)" by simp
  have c1: "count_events is_upload w1 = count_events is_upload w"
    using prep ignores_fs_is_upload git by (rule count_prepareSource)
  have c2: "count_events is_upload w2 = count_events is_upload w1"
    using rend ignores_fs_is_upload by (rule count_renderTemplateFiles)
  have c3: "count_events is_upload w3 = count_events is_upload w2"
    using bld ignores_fs_is_upload sh by (rule count_runBuild_other)
  obtain r4 w4 where p4: "applyBuild_publish S user data0 prior lpkPath meta w3 = (r4, w4)"
    by (cases "applyBuild_publish S user data0 prior lpkPath meta w3")
  from app applyBuild_stages [OF prep rend bld p4]
  have res: "res = r4" and w': "w' = (case cleanup of None \<Rightarrow> w4 | Some tmp \<Rightarrow> os_RemoveAll tmp w4)"
    by simp_all
  have c5: "count_events is_upload w' = count_events is_upload w4"
    unfolding w' by (rule count_cleanup) simp
  have c4: "count_events is_upload w4 =
      count_events is_upload w3 + (if \<not> CanReuse_spec prior (meta_SHA256 meta) then 1 else 0)"
    using count_applyBuild_publish [OF p4] pub by (simp add: canReuseUpload_spec)
  have total: "count_events is_upload w' =
      count_events is_upload w + (if \<not> CanReuse_spec prior (meta_SHA256 meta) then 1 else 0)"
    using c1 c2 c3 c4 c5 by simp
  have hash: "\<exists>c. read_of (dsk w3) lpkPath = Inr c \<and> meta_SHA256 meta = sha256_hex S c"
  proof -
    from runBuild_success [OF bld] obtain bytes manifest c where
      "meta = runBuild_meta manifest (sha256_hex S c)
         (Sprintf_dashes (man_Name manifest) (man_Version manifest) (sha256_hex S bytes)) (Publish data0)"
      and "read_of (dsk w3) lpkPath = Inr c"
      by blast
    then show ?thesis by (simp add: runBuild_meta_def)
  qed
  have reuse: "\<exists>r p. prior = Some p \<and> res = Inr r \<and> LPKURL r = LPKURL p \<and> UploadID r = UploadID p"
    if "CanReuse_spec prior (meta_SHA256 meta)"
  proof -
    from that have "canReuseUpload prior meta" by (simp add: canReuseUpload_spec)
    from applyBuild_publish_reuse [OF pub this, of S user lpkPath w3] p4 res
    show ?thesis by auto
  qed
  have differs: "\<not> CanReuse_spec prior (meta_SHA256 meta)"
    if "prior = Some p" and "ValueString (SHA256 p) \<noteq> meta_SHA256 meta" for p
    using that by (simp add: CanReuse_spec_def)
  from total have t1: "CanReuse_spec prior (meta_SHA256 meta) \<Longrightarrow>
      count_events is_upload w' = count_events is_upload w" by simp
  from total have t2: "\<not> CanReuse_spec prior (meta_SHA256 meta) \<Longrightarrow>
      count_events is_upload w' = count_events is_upload w + 1" by simp
  show ?thesis using hash t1 t2 reuse differs by blast
qed

theorem applyBuild_reuses_upload_witness:
  "count_events is_upload (snd (applyBuild demo_sys ''u1'' demo_data (Some demo_prior) demo_world)) =
     count_events is_upload demo_world \<and>
   (\<exists>r. fst (applyBuild demo_sys ''u1'' demo_data (Some demo_prior) demo_world) = Inr r \<and>
        LPKURL r = StringValue ''http://old/app.lpk'' \<and> UploadID r = StringValue ''old-id'') \<and>
   count_events is_upload (snd (applyBuild demo_sys ''u1'' demo_data None demo_world)) =
     count_events is_upload demo_world + 1"
proof -
  have reuse: "CanReuse_spec (Some demo_prior) (meta_SHA256 demo_meta)"
    by (simp add: CanReuse_spec_def demo_prior_def demo_meta_def)
  have fresh: "\<not> CanReuse_spec None (meta_SHA256 demo_meta)"
    by (simp add: CanReuse_spec_def)
  have app1: "applyBuild demo_sys ''u1'' demo_data (Some demo_prior) demo_world =
      (fst (applyBuild demo_sys ''u1'' demo_data (Some demo_prior) demo_world),
       snd (applyBuild demo_sys ''u1'' demo_data (Some demo_prior) demo_world))" by simp
  have app2: "applyBuild demo_sys ''u1'' demo_data None demo_world =
      (fst (applyBuild demo_sys ''u1'' demo_data None demo_world),
       snd (applyBuild demo_sys ''u1'' demo_data None demo_world))" by simp
  from applyBuild_reuses_upload [OF demo_prep demo_render' demo_build' demo_pub app1] reuse
  have a: "count_events is_upload (snd (applyBuild demo_sys ''u1'' demo_data (Some demo_prior) demo_world)) =
     count_events is_upload demo_world \<and>
   (\<exists>r. fst (applyBuild demo_sys ''u1'' demo_data (Some demo_prior) demo_world) = Inr r \<and>
        LPKURL r = LPKURL demo_prior \<and> UploadID r = UploadID demo_prior)"
    by auto
  from applyBuild_reuses_upload [OF demo_prep demo_render' demo_build' demo_pub app2] fresh
  have b: "count_events is_upload (snd (applyBuild demo_sys ''u1'' demo_data None demo_world)) =
     count_events is_upload demo_world + 1"
    by blast
  from a b show ?thesis by (simp add: demo_prior_def)
qed

section \<open>The resource identifier\<close>

text \<open>
  Claim C10. For every successful apply of the \<open>lpk_build\<close> resource, the reported ID is
  \<open>{appID}-{version}-{hash}\<close> with the appID of the manifest, the version of the metadata
  (the manifest version, or the version of the publish block when that is non-empty) and
  the digest of the artifact on disk. When publishing is disabled the \<open>sha256\<close> and
  \<open>version\<close> attributes hold the same values. When the artifact is uploaded, a non-empty
  \<open>sha256\<close> or \<open>version\<close> of the upload response replaces the attribute, while the ID
  keeps the local values; the witness is a run in which the ID is \<open>a1-1.0.0-sha:LPK\<close>
  and the attributes are \<open>remote-sha\<close> and \<open>9.9\<close>.
\<close>

theorem applyBuild_identifier:
  assumes prep: "prepareSource S (Source data0) w = (Inr (workdir, cleanup), w1)"
    and rend: "renderTemplateFiles S workdir (resolveTemplateExtension (Env data0))
           (collectEnvVars (Env data0)) w1 = (None, w2)"
    and bld: "runBuild S workdir (Build data0) (Publish data0) (collectEnvVars (Env data0)) w2 =
           (Inr (lpkPath, meta), w3)"
    and app: "applyBuild S user data0 prior w = (Inr r, w')"
  shows "\<exists>bytes manifest c.
           read_of (dsk w2) (Join [workdir, ''lzc-manifest.yml'']) = Inr bytes \<and>
           yaml_Unmarshal S bytes = Inr manifest \<and>
           read_of (dsk w3) lpkPath = Inr c \<and>
           ID r = StringValue (Sprintf_dashes (man_AppID manifest)
                    (effective_version manifest (Publish data0)) (sha256_hex S c)) \<and>
           (\<not> shouldPublish (Publish data0) \<longrightarrow>
              SHA256 r = StringValue (sha256_hex S c) \<and>
              Version r = StringValue (effective_version manifest (Publish data0))) \<and>
           (shouldPublish (Publish data0) \<and> \<not> CanReuse_spec prior (sha256_hex S c) \<longrightarrow>
              (\<exists>name u.
                 UploadLPK S user name (effective_version manifest (Publish data0)) lpkPath (dsk w3) = Inr u \<and>
                 SHA256 r = StringValue (if up_SHA256 u \<noteq> [] then up_SHA256 u else sha256_hex S c) \<and>
                 Version r = StringValue (if up_Version u \<noteq> [] then up_Version u
                                          else effective_version manifest (Publish data0))))"
proof -
  from runBuild_success [OF bld] obtain bytes manifest c where
    b: "read_of (dsk w2) (Join [workdir, ''lzc-manifest.yml'']) = Inr bytes"
      "yaml_Unmarshal S bytes = Inr manifest"
    and m: "meta = runBuild_meta manifest (sha256_hex S c)
         (Sprintf_dashes (man_Name manifest) (man_Version manifest) (sha256_hex S bytes)) (Publish data0)"
    and c: "read_of (dsk w3) lpkPath = Inr c"
    by blast
  have mv: "meta_Version meta = effective_version manifest (Publish data0)"
    unfolding m by (rule meta_Version_effective)
  have ma: "meta_AppID meta = man_AppID manifest" and ms: "meta_SHA256 meta = sha256_hex S c"
    unfolding m by (simp_all add: runBuild_meta_def)
  obtain r4 w4 where p4: "applyBuild_publish S user data0 prior lpkPath meta w3 = (r4, w4)"
    by (cases "applyBuild_publish S user data0 prior lpkPath meta w3")
  from app applyBuild_stages [OF prep rend bld p4] have "r4 = Inr r" by simp
  with p4 have "applyBuild_publish S user data0 prior lpkPath meta w3 = (Inr r, w4)" by simp
  from applyBuild_publish_Inr [OF this]
  have "ID r = StringValue (Sprintf_dashes (man_AppID manifest)
                    (effective_version manifest (Publish data0)) (sha256_hex S c)) \<and>
           (\<not> shouldPublish (Publish data0) \<longrightarrow>
              SHA256 r = StringValue (sha256_hex S c) \<and>
              Version r = StringValue (effective_version manifest (Publish data0))) \<and>
           (shouldPublish (Publish data0) \<and> \<not> CanReuse_spec prior (sha256_hex S c) \<longrightarrow>
              (\<exists>name u.
                 UploadLPK S user name (effective_version manifest (Publish data0)) lpkPath (dsk w3) = Inr u \<and>
                 SHA256 r = StringValue (if up_SHA256 u \<noteq> [] then up_SHA256 u else sha256_hex S c) \<and>
                 Version r = StringValue (if up_Version u \<noteq> [] then up_Version u
                                          else effective_version manifest (Publish data0))))"
    unfolding mv ma ms canReuseUpload_spec upload_version_effective by simp
  with b c show ?thesis by blast
qed

theorem applyBuild_identifier_witness:
  "\<exists>r. fst (applyBuild demo_sys ''u1'' demo_data None demo_world) = Inr r \<and>
       ID r = StringValue ''a1-1.0.0-sha:LPK'' \<and>
       SHA256 r = StringValue ''remote-sha'' \<and> Version r = StringValue ''9.9''"
proof -
  let ?r = "demo_data\<lparr>ID := StringValue ''a1-1.0.0-sha:LPK'',
                   LPKURL := StringValue ''http://nas/app.lpk'',
                   SHA256 := StringValue ''remote-sha'',
                   AppID := StringValue ''a1'',
                   Version := StringValue ''9.9'',
                   LocalPath := StringValue ''/w/app-1.0.0-sha:name: app.lpk'',
                   UploadID := StringValue ''id1''\<rparr>"
  have app: "applyBuild demo_sys ''u1'' demo_data None demo_world =
      (Inr ?r, snd (applyBuild demo_sys ''u1'' demo_data None demo_world))"
    using demo_app by (simp add: prod_eq_iff)
  from applyBuild_identifier [OF demo_prep demo_render' demo_build' app]
  obtain manifest c where
    "ID ?r = StringValue (Sprintf_dashes (man_AppID manifest)
                    (effective_version manifest (Publish demo_data)) (sha256_hex demo_sys c))"
    by blast
  then show ?thesis using demo_app by simp
qed

section \<open>Descriptor validation\<close>




section \<open>Cleanup of the staging directory\<close>

text \<open>
  Claim C9. For a git source (no local variant, a non-empty URL) whose staging directory
  \<open>tmp\<close> has been created: when \<open>prepareSource\<close> returns an error (the clone or the
  checkout failed) its last action was to remove \<open>tmp\<close>, and nothing exists at \<open>tmp\<close>;
  when it succeeds it returns the cleanup handle of \<open>tmp\<close>; and whatever \<open>applyBuild\<close>
  returns, the last action of \<open>applyBuild\<close> was to remove \<open>tmp\<close>, and nothing exists
  at \<open>tmp\<close> afterwards. (\<open>os.RemoveAll\<close> is taken to remove what it is asked to; the
  provider discards its error.)
\<close>

theorem staging_directory_removed:
  assumes src: "Source data0 = Some src" "Local src = None" "Git src = Some g"
    and url: "ValueString (URL g) \<noteq> []"
    and tmp: "mkdir_temp S [] ''lpk-build-*'' (dsk w) = Inr tmp"
  shows "(\<forall>e w1. prepareSource S (Source data0) w = (Inl e, w1) \<longrightarrow>
            \<not> path_exists (dsk w1) tmp \<and> last (io_log w1) = EvRemoveAll tmp) \<and>
         (\<forall>wd cleanup w1. prepareSource S (Source data0) w = (Inr (wd, cleanup), w1) \<longrightarrow>
            cleanup = Some tmp) \<and>
         (\<forall>res w'. applyBuild S user data0 prior w = (res, w') \<longrightarrow>
            \<not> path_exists (dsk w') tmp \<and> last (io_log w') = EvRemoveAll tmp)"
proof (intro conjI allI impI)
  fix e w1 assume "prepareSource S (Source data0) w = (Inl e, w1)"
  from prepareSource_git [OF src url tmp this] obtain w0 where "w1 = os_RemoveAll tmp w0" by auto
  then show "\<not> path_exists (dsk w1) tmp" and "last (io_log w1) = EvRemoveAll tmp"
    by (simp_all add: os_RemoveAll_gone)
next
  fix wd cleanup w1 assume "prepareSource S (Source data0) w = (Inr (wd, cleanup), w1)"
  from prepareSource_git [OF src url tmp this] show "cleanup = Some tmp" by auto
next
  fix res w' assume app: "applyBuild S user data0 prior w = (res, w')"
  obtain r w1 where ps: "prepareSource S (Source data0) w = (r, w1)"
    by (cases "prepareSource S (Source data0) w")
  have "\<exists>w0. w' = os_RemoveAll tmp w0"
  proof (cases r)
    case (Inl e)
    with prepareSource_git [OF src url tmp ps] obtain w0 where "w1 = os_RemoveAll tmp w0" by auto
    moreover from app ps Inl have "w' = w1" by (simp add: applyBuild_def)
    ultimately show ?thesis by blast
  next
    case (Inr x)
    with prepareSource_git [OF src url tmp ps] obtain wd where "r = Inr (wd, Some tmp)" by auto
    with app ps show ?thesis by (auto simp: applyBuild_def split: prod.splits)
  qed
  then show "\<not> path_exists (dsk w') tmp" and "last (io_log w') = EvRemoveAll tmp"
    by (auto simp: os_RemoveAll_gone)
qed

theorem staging_directory_removed_witness:
  "(\<exists>e. fst (applyBuild demo_sys ''u1'' demo_git None demo_world) = Inl e) \<and>
   \<not> path_exists (dsk (snd (applyBuild demo_sys ''u1'' demo_git None demo_world))) ''/tmp/lpk-build-1'' \<and>
   last (io_log (snd (applyBuild demo_sys ''u1'' demo_git None demo_world))) = EvRemoveAll ''/tmp/lpk-build-1''"
proof -
  have src: "Source demo_git = Some \<lparr>Local = None, Git = Some demo_git_block\<rparr>"
    by (simp add: demo_git_def)
  have loc: "Local \<lparr>Local = None, Git = Some demo_git_block\<rparr> = None" by simp
  have git: "Git \<lparr>Local = None, Git = Some demo_git_block\<rparr> = Some demo_git_block" by simp
  have url: "ValueString (URL demo_git_block) \<noteq> []" by (simp add: demo_git_block_def)
  have tmp: "mkdir_temp demo_sys [] ''lpk-build-*'' (dsk demo_world) = Inr ''/tmp/lpk-build-1''"
    by (simp add: demo_sys_def)
  have app: "applyBuild demo_sys ''u1'' demo_git None demo_world =
      (fst (applyBuild demo_sys ''u1'' demo_git None demo_world),
       snd (applyBuild demo_sys ''u1'' demo_git None demo_world))" by simp
  from staging_directory_removed [OF src loc git url tmp, of "''u1''" None] app
  have "\<not> path_exists (dsk (snd (applyBuild demo_sys ''u1'' demo_git None demo_world))) ''/tmp/lpk-build-1'' \<and>
   last (io_log (snd (applyBuild demo_sys ''u1'' demo_git None demo_world))) = EvRemoveAll ''/tmp/lpk-build-1''"
    by blast
  with demo_git_fails show ?thesis by simp
qed

section \<open>Template strictness\<close>




section \<open>Template extension\<close>

text \<open>
  Claim C7 has every extension string behave the same with and without a leading dot.
  \<open>resolveTemplateExtension\<close> trims the white space around the value before it looks
  for the dot, and adds no dot to a value that has one: a value with white space before
  it resolves to something else than the same value after a dot, and the empty value
  resolves to the default while a lone dot is kept. The walk then reads other files.
\<close>

theorem extension_dot_before_space:
  "resolveTemplateExtension (Some \<lparr>Variables = [], TemplateExtension = StringValue '' j2''\<rparr>) = ''.j2'' \<and>
   resolveTemplateExtension (Some \<lparr>Variables = [], TemplateExtension = StringValue ''. j2''\<rparr>) = ''. j2'' \<and>
   resolveTemplateExtension (Some \<lparr>Variables = [], TemplateExtension = StringValue []\<rparr>) = ''.tmpl'' \<and>
   resolveTemplateExtension (Some \<lparr>Variables = [], TemplateExtension = StringValue ''.''\<rparr>) = ''.'' \<and>
   template_reads demo_templates
     (snd (renderTemplateFiles demo_sys ''/w''
             (resolveTemplateExtension (Some \<lparr>Variables = [], TemplateExtension = StringValue '' j2''\<rparr>))
             [] demo_templates)) =
     [''/w/a.j2'', ''/w/sub/c.j2''] \<and>
   template_reads demo_templates
     (snd (renderTemplateFiles demo_sys ''/w''
             (resolveTemplateExtension (Some \<lparr>Variables = [], TemplateExtension = StringValue ''. j2''\<rparr>))
             [] demo_templates)) =
     []"
  by code_simp

text \<open>
  Claim C7, amended. An unset extension (no \<open>env\<close> block, a null or an unknown value)
  and an extension that is empty or consists of white space resolve to \<open>.tmpl\<close>. For a
  value that, with the surrounding white space trimmed, is some non-empty \<open>t\<close> with no
  leading dot, the value and \<open>.t\<close> both resolve to \<open>.t\<close>, and \<open>renderTemplateFiles\<close> does
  the same with either (so \<open>j2\<close> and \<open>.j2\<close> both resolve to \<open>.j2\<close>). A successful
  \<open>renderTemplateFiles\<close> over a directory reads as templates exactly the entries below
  it that are not directories and whose name ends with the resolved extension, in walk
  order.
\<close>

theorem template_extension:
  "resolveTemplateExtension None = ''.tmpl'' \<and>
   (IsNull x \<or> IsUnknown x \<longrightarrow>
      resolveTemplateExtension (Some \<lparr>Variables = vs, TemplateExtension = x\<rparr>) = ''.tmpl'') \<and>
   (set rs \<subseteq> set space_runes \<longrightarrow>
      resolveTemplateExtension (Some \<lparr>Variables = vs, TemplateExtension = StringValue (concat rs)\<rparr>) =
        ''.tmpl'') \<and>
   (TrimSpace s \<noteq> [] \<and> \<not> prefix ''.'' (TrimSpace s) \<longrightarrow>
      resolveTemplateExtension (Some \<lparr>Variables = vs, TemplateExtension = StringValue s\<rparr>) =
        ''.'' @ TrimSpace s \<and>
      resolveTemplateExtension
        (Some \<lparr>Variables = vs, TemplateExtension = StringValue (''.'' @ TrimSpace s)\<rparr>) =
        ''.'' @ TrimSpace s \<and>
      renderTemplateFiles S baseDir
        (resolveTemplateExtension (Some \<lparr>Variables = vs, TemplateExtension = StringValue s\<rparr>))
        envVars w =
      renderTemplateFiles S baseDir
        (resolveTemplateExtension
           (Some \<lparr>Variables = vs, TemplateExtension = StringValue (''.'' @ TrimSpace s)\<rparr>))
        envVars w) \<and>
   (renderTemplateFiles S baseDir (resolveTemplateExtension env) envVars w = (None, w') \<and>
    is_dir (dsk w) baseDir \<longrightarrow>
      template_reads w w' =
        filter (is_template (dsk w) (resolveTemplateExtension env)) (walk_paths (dsk w) baseDir))"
proof -
  have d1: "resolveTemplateExtension None = ''.tmpl''"
    by (simp add: resolveTemplateExtension_def defaultTemplateExtension_def)
  have d2: "resolveTemplateExtension (Some \<lparr>Variables = vs, TemplateExtension = x\<rparr>) = ''.tmpl''"
    if "IsNull x \<or> IsUnknown x"
    using that by (auto simp: resolveTemplateExtension_def defaultTemplateExtension_def)
  have d3: "resolveTemplateExtension
      (Some \<lparr>Variables = vs, TemplateExtension = StringValue (concat rs)\<rparr>) = ''.tmpl''"
    if "set rs \<subseteq> set space_runes"
    using that by (simp add: resolve_value TrimSpace_whitespace)
  have n: "resolveTemplateExtension (Some \<lparr>Variables = vs, TemplateExtension = StringValue s\<rparr>) =
        ''.'' @ TrimSpace s \<and>
      resolveTemplateExtension
        (Some \<lparr>Variables = vs, TemplateExtension = StringValue (''.'' @ TrimSpace s)\<rparr>) =
        ''.'' @ TrimSpace s"
    if "TrimSpace s \<noteq> []" and "\<not> prefix ''.'' (TrimSpace s)"
  proof -
    have "TrimSpace (''.'' @ TrimSpace s) = ''.'' @ TrimSpace s"
      using TrimSpace_trimmed [of s] by (simp add: TrimSpace_dot)
    with that show ?thesis by (simp add: resolve_value)
  qed
  have t: "template_reads w w' =
        filter (is_template (dsk w) (resolveTemplateExtension env)) (walk_paths (dsk w) baseDir)"
    if "renderTemplateFiles S baseDir (resolveTemplateExtension env) envVars w = (None, w')"
      and "is_dir (dsk w) baseDir"
    using that(1) resolveTemplateExtension_nonempty that(2) by (rule renderTemplateFiles_reads)
  from d1 d2 d3 n t show ?thesis by simp
qed

theorem template_extension_witness:
  "resolveTemplateExtension (Some \<lparr>Variables = [], TemplateExtension = StringValue ''j2''\<rparr>) = ''.j2'' \<and>
   resolveTemplateExtension (Some \<lparr>Variables = [], TemplateExtension = StringValue ''.j2''\<rparr>) = ''.j2'' \<and>
   resolveTemplateExtension
     (Some \<lparr>Variables = [], TemplateExtension = StringValue [CHR 0x20, CHR 0x09]\<rparr>) = ''.tmpl'' \<and>
   resolveTemplateExtension (Some \<lparr>Variables = [], TemplateExtension = StringNull\<rparr>) = ''.tmpl'' \<and>
   template_reads demo_templates
     (snd (renderTemplateFiles demo_sys ''/w''
             (resolveTemplateExtension (Some \<lparr>Variables = [], TemplateExtension = StringValue ''j2''\<rparr>))
             [] demo_templates)) =
     [''/w/a.j2'', ''/w/sub/c.j2'']"
proof -
  let ?env = "Some \<lparr>Variables = [], TemplateExtension = StringValue ''j2''\<rparr>"
  let ?w' = "snd (renderTemplateFiles demo_sys ''/w'' (resolveTemplateExtension ?env) [] demo_templates)"
  have run: "renderTemplateFiles demo_sys ''/w'' (resolveTemplateExtension ?env) [] demo_templates =
      (None, ?w')"
    using demo_j2_render by (simp add: prod_eq_iff)
  have sp: "set [[CHR 0x20], [CHR 0x09]] \<subseteq> set space_runes"
    by (simp add: space_runes_def)
  have nul: "IsNull StringNull \<or> IsUnknown StringNull" by simp
  have tr: "TrimSpace ''j2'' \<noteq> [] \<and> \<not> prefix ''.'' (TrimSpace ''j2'')"
    by (simp add: demo_j2_trim)
  note t = template_extension [where x = StringNull and vs = "[]" and rs = "[[CHR 0x20], [CHR 0x09]]"
      and s = "''j2''" and S = demo_sys and baseDir = "''/w''" and envVars = "[]"
      and w = demo_templates and w' = ?w' and env = ?env]
  from t nul have a: "resolveTemplateExtension (Some \<lparr>Variables = [], TemplateExtension = StringNull\<rparr>) = ''.tmpl''"
    by blast
  from t sp have b: "resolveTemplateExtension
     (Some \<lparr>Variables = [], TemplateExtension = StringValue (concat [[CHR 0x20], [CHR 0x09]])\<rparr>) = ''.tmpl''"
    by blast
  from t tr have c: "resolveTemplateExtension ?env = ''.'' @ TrimSpace ''j2''"
    "resolveTemplateExtension
        (Some \<lparr>Variables = [], TemplateExtension = StringValue (''.'' @ TrimSpace ''j2'')\<rparr>) =
        ''.'' @ TrimSpace ''j2''"
    by blast+
  from t run demo_w_dir have d: "template_reads demo_templates ?w' =
      filter (is_template (dsk demo_templates) (resolveTemplateExtension ?env))
        (walk_paths (dsk demo_templates) ''/w'')"
    by blast
  from a b c d show ?thesis by (simp add: demo_j2_trim demo_j2_reads)
qed

section \<open>The environment of the build command\<close>

text \<open>
  Claim C8. For a non-empty map of supplied variables (an association list with distinct
  keys), \<open>commandEnvironment\<close> returns the inherited environment overlaid with the
  supplied variables, a supplied value winning on a key collision, as \<open>KEY=VALUE\<close>
  strings in ascending order of the keys; and the first thing the build branch of
  \<open>runBuild\<close> does is to run \<open>sh -c COMMAND\<close> in the working directory with exactly
  this environment. (Entries of \<open>os.Environ()\<close> without \<open>=\<close>, or with an empty key,
  are not part of the inherited mapping.)
\<close>

theorem build_command_environment:
  assumes "custom \<noteq> []" and "distinct (map fst custom)"
  shows "commandEnvironment custom env = Some (spec_environment env custom) \<and>
         (runBuild_invoke S path build custom ap w = (r, w') \<longrightarrow>
            (\<exists>cmd evs. io_log w' =
               io_log w @ EvExec ''sh'' [''-c'', cmd] path (Some (spec_environment (environ w) custom)) # evs))"
proof
  show "commandEnvironment custom env = Some (spec_environment env custom)"
    using assms by (rule commandEnvironment_overlay)
next
  show "runBuild_invoke S path build custom ap w = (r, w') \<longrightarrow>
            (\<exists>cmd evs. io_log w' =
               io_log w @ EvExec ''sh'' [''-c'', cmd] path (Some (spec_environment (environ w) custom)) # evs)"
  proof
    assume "runBuild_invoke S path build custom ap w = (r, w')"
    from runBuild_invoke_exec [OF this] assms(1) commandEnvironment_overlay [OF assms, of "environ w"]
    show "\<exists>cmd evs. io_log w' =
               io_log w @ EvExec ''sh'' [''-c'', cmd] path (Some (spec_environment (environ w) custom)) # evs"
      by simp
  qed
qed

theorem build_command_environment_witness:
  "commandEnvironment demo_custom (environ demo_world) =
     Some [''API_KEY=s3cret'', ''HOME=/root'', ''PATH=/opt/bin'']"
proof -
  have ne: "demo_custom \<noteq> []" by (simp add: demo_custom_def)
  have di: "distinct (map fst demo_custom)" by (simp add: demo_custom_def)
  from build_command_environment [OF ne di, of "environ demo_world"]
  have "commandEnvironment demo_custom (environ demo_world) =
      Some (spec_environment (environ demo_world) demo_custom)"
    by blast
  then show ?thesis by (simp add: demo_custom_env)
qed

section \<open>The canonical artifact path and the cache check\<close>

text \<open>
  Claim C2. Whenever \<open>runBuild\<close> succeeds, the path it returns is the working directory
  joined with \<open>NAME-VERSION-HASH.lpk\<close>, where \<open>NAME\<close> and \<open>VERSION\<close> are decoded from
  the manifest and \<open>HASH\<close> is the hex SHA-256 of the bytes of the manifest file as read at
  the start of the call (not of the built artifact); and the build command has been run
  once when nothing existed at that path at the start of the call, and not at all when
  something did.
\<close>

theorem runBuild_artifact_path:
  assumes "runBuild S path build pub envVars w = (Inr (ap, meta), w')"
  shows "\<exists>bytes manifest.
           read_of (dsk w) (Join [path, ''lzc-manifest.yml'']) = Inr bytes \<and>
           yaml_Unmarshal S bytes = Inr manifest \<and>
           ap = Join [path, man_Name manifest @ ''-'' @ man_Version manifest @ ''-'' @
                        sha256_hex S bytes @ ''.lpk''] \<and>
           count_events is_build_command w' =
             count_events is_build_command w + (if path_exists (dsk w) ap then 0 else 1)"
proof -
  from runBuild_success [OF assms] obtain bytes manifest where
    "read_of (dsk w) (Join [path, ''lzc-manifest.yml'']) = Inr bytes"
    "yaml_Unmarshal S bytes = Inr manifest"
    "ap = Join [path, Sprintf_dashes (man_Name manifest) (man_Version manifest)
                        (sha256_hex S bytes) @ ''.lpk'']"
    "count_events is_build_command w' =
             count_events is_build_command w + (if path_exists (dsk w) ap then 0 else 1)"
    by blast
  then show ?thesis unfolding Sprintf_dashes_def by (intro exI [of _ bytes] exI [of _ manifest]) simp
qed

theorem runBuild_artifact_path_witness:
  "(\<exists>bytes manifest.
      read_of (dsk demo_walked) (Join [''/w'', ''lzc-manifest.yml'']) = Inr bytes \<and>
      yaml_Unmarshal demo_sys bytes = Inr manifest \<and>
      ''/w/app-1.0.0-sha:name: app.lpk'' =
        Join [''/w'', man_Name manifest @ ''-'' @ man_Version manifest @ ''-'' @
                     sha256_hex demo_sys bytes @ ''.lpk'']) \<and>
   \<not> path_exists (dsk demo_walked) ''/w/app-1.0.0-sha:name: app.lpk'' \<and>
   count_events is_build_command (snd (runBuild demo_sys ''/w'' (Build demo_data) (Publish demo_data)
            (collectEnvVars (Env demo_data)) demo_walked)) =
     count_events is_build_command demo_walked + 1"
proof -
  have np: "\<not> path_exists (dsk demo_walked) ''/w/app-1.0.0-sha:name: app.lpk''"
    by code_simp
  from runBuild_artifact_path [OF demo_build'] np show ?thesis
    by auto
qed

section \<open>Building twice\<close>

text \<open>
  Claim C1 has two calls on an unchanged manifest run the build command at most once.
  The cache of \<open>runBuild\<close> is the artifact at the canonical path: a call whose build
  command fails leaves none, and the next call runs the command again, with the manifest
  and the whole working directory as they were.
\<close>

theorem failed_build_runs_again:
  "fst (runBuild demo_failing_sys ''/w'' None None [] demo_walked) = Inl (ErrorString ''exit status 1'') \<and>
   read_of (dsk (snd (runBuild demo_failing_sys ''/w'' None None [] demo_walked))) ''/w/lzc-manifest.yml'' =
     read_of (dsk demo_walked) ''/w/lzc-manifest.yml'' \<and>
   entries (dsk (snd (runBuild demo_failing_sys ''/w'' None None [] demo_walked))) =
     entries (dsk demo_walked) \<and>
   fst (runBuild demo_failing_sys ''/w'' None None []
          (snd (runBuild demo_failing_sys ''/w'' None None [] demo_walked))) =
     Inl (ErrorString ''exit status 1'') \<and>
   count_events is_build_command
     (snd (runBuild demo_failing_sys ''/w'' None None []
             (snd (runBuild demo_failing_sys ''/w'' None None [] demo_walked)))) =
     count_events is_build_command demo_walked + 2"
  by code_simp

text \<open>
  Claim C1, amended. Let a first call of \<open>runBuild\<close> on a working directory succeed. It
  has run the build command at most once. A second call, made in any later state in
  which the manifest file reads as it did before the first call and the artifact reads
  as the first call left it (the state the first call ends in is one, when the build
  command did not touch the manifest), returns the same artifact path and the same
  metadata (appID, version, content hash and name), does not run the build command, and
  leaves the disk as it found it. So the two calls run the build command at most once in
  total.
\<close>

theorem runBuild_idempotent:
  assumes first: "runBuild S path build pub envVars w0 = (Inr (ap, meta), w1)"
    and manifest: "read_of (dsk w) (Join [path, ''lzc-manifest.yml'']) =
                   read_of (dsk w0) (Join [path, ''lzc-manifest.yml''])"
    and artifact: "read_of (dsk w) ap = read_of (dsk w1) ap"
  shows "count_events is_build_command w1 \<le> count_events is_build_command w0 + 1 \<and>
         (\<exists>w2. runBuild S path build pub envVars w = (Inr (ap, meta), w2) \<and>
               count_events is_build_command w2 = count_events is_build_command w \<and>
               dsk w2 = dsk w)"
proof -
  from runBuild_success [OF first] obtain bytes manifest' c where
    b: "read_of (dsk w0) (Join [path, ''lzc-manifest.yml'']) = Inr bytes"
      "yaml_Unmarshal S bytes = Inr manifest'"
      "man_Name manifest' \<noteq> []" "man_Version manifest' \<noteq> []"
    and ap: "ap = Join [path, Sprintf_dashes (man_Name manifest') (man_Version manifest')
                        (sha256_hex S bytes) @ ''.lpk'']"
    and meta: "meta = runBuild_meta manifest' (sha256_hex S c)
                    (Sprintf_dashes (man_Name manifest') (man_Version manifest') (sha256_hex S bytes)) pub"
    and c: "read_of (dsk w1) ap = Inr c"
    and cnt: "count_events is_build_command w1 =
             count_events is_build_command w0 + (if path_exists (dsk w0) ap then 0 else 1)"
    by blast
  from cnt have le: "count_events is_build_command w1 \<le> count_events is_build_command w0 + 1"
    by simp
  have m: "read_of (dsk w) (Join [path, ''lzc-manifest.yml'']) = Inr bytes"
    using manifest b(1) by simp
  have a: "read_of (dsk w)
              (Join [path, Sprintf_dashes (man_Name manifest') (man_Version manifest')
                             (sha256_hex S bytes) @ ''.lpk'']) = Inr c"
    using artifact c ap by simp
  from runBuild_cached [OF m b(2) b(3) b(4) a, of build pub envVars]
  obtain w2 where "runBuild S path build pub envVars w = (Inr (ap, meta), w2)"
    "dsk w2 = dsk w" "count_events is_build_command w2 = count_events is_build_command w"
    unfolding ap [symmetric] meta [symmetric] by blast
  with le show ?thesis by blast
qed

theorem runBuild_idempotent_witness:
  "count_events is_build_command (snd (runBuild demo_sys ''/w'' (Build demo_data) (Publish demo_data)
            (collectEnvVars (Env demo_data)) demo_walked)) \<le>
     count_events is_build_command demo_walked + 1 \<and>
   (\<exists>w2. runBuild demo_sys ''/w'' (Build demo_data) (Publish demo_data)
            (collectEnvVars (Env demo_data)) (snd (runBuild demo_sys ''/w'' (Build demo_data) (Publish demo_data)
            (collectEnvVars (Env demo_data)) demo_walked)) =
           (Inr (''/w/app-1.0.0-sha:name: app.lpk'', demo_meta), w2) \<and>
         count_events is_build_command w2 =
           count_events is_build_command (snd (runBuild demo_sys ''/w'' (Build demo_data) (Publish demo_data)
            (collectEnvVars (Env demo_data)) demo_walked)) \<and>
         dsk w2 = dsk (snd (runBuild demo_sys ''/w'' (Build demo_data) (Publish demo_data)
            (collectEnvVars (Env demo_data)) demo_walked)))"
proof -
  have unchanged:
    "read_of (dsk (snd (runBuild demo_sys ''/w'' (Build demo_data) (Publish demo_data)
            (collectEnvVars (Env demo_data)) demo_walked))) (Join [''/w'', ''lzc-manifest.yml'']) =
     read_of (dsk demo_walked) (Join [''/w'', ''lzc-manifest.yml''])"
    by code_simp
  from runBuild_idempotent [OF demo_build' unchanged refl] show ?thesis .
qed

section \<open>Collecting the output of the build command\<close>

text \<open>
  Claim C6 has the builder collect every \<open>.lpk\<close> file somewhere in the working
  directory. The pattern of \<open>findLatestLPK\<close> is \<open>DIR/*.lpk\<close>, whose star does not match
  a separator: when the build command leaves its only artifact in a subdirectory, here
  \<open>/w/dist/out.lpk\<close>, the command has run, the artifact lies below the working
  directory, and \<open>runBuild\<close> fails with the no-artifact error.
\<close>

theorem lpk_below_subdirectory_not_collected:
  "fst (runBuild demo_nested_sys ''/w'' None None [] demo_walked) =
     Inl (ErrorString ''no .lpk artifact produced'') \<and>
   count_events is_build_command (snd (runBuild demo_nested_sys ''/w'' None None [] demo_walked)) = 1 \<and>
   files_below (dsk (snd (runBuild demo_nested_sys ''/w'' None None [] demo_walked))) ''/w'' ''.lpk'' =
     [''/w/dist/out.lpk'']"
  by code_simp

text \<open>
  Claim C6, amended. Let the path of the working directory have none of the pattern
  metacharacters \<open>*\<close>, \<open>?\<close>, \<open>[\<close> and backslash, let the directory be readable, and let
  \<open>os.Stat\<close> succeed on every entry directly in it whose name ends with \<open>.lpk\<close>. After a
  successful build command, if there is no such entry the builder fails with the
  no-artifact error; otherwise \<open>findLatestLPK\<close> returns one of these entries, none of the
  others being modified later, and the builder renames it to the canonical artifact path
  when its path differs, and returns the error of the rename, wrapped, when that fails;
  when the builder succeeds, the canonical path holds the content of the selected file.
\<close>

theorem runBuild_collect_latest:
  assumes plain: "\<not> hasMeta path"
    and readable: "lpk_dir path \<notin> faulty (dsk w)"
    and stats: "\<forall>m \<in> set (lpk_matches (dsk w) path). \<not> isl (stat_of (dsk w) m)"
  shows "(lpk_matches (dsk w) path = [] \<longrightarrow>
            fst (runBuild_collect S path ap w) = Some (ErrorString ''no .lpk artifact produced'')) \<and>
         (lpk_matches (dsk w) path \<noteq> [] \<longrightarrow>
            (\<exists>out w2. findLatestLPK S path w = (Inr out, w2) \<and> dsk w2 = dsk w \<and>
               out \<in> set (lpk_matches (dsk w) path) \<and>
               (\<forall>m \<in> set (lpk_matches (dsk w) path). mod_time (dsk w) m \<le> mod_time (dsk w) out) \<and>
               runBuild_collect S path ap w =
                 (if out \<noteq> ap then
                    (case os_Rename out ap w2 of
                       (Some e, w3) \<Rightarrow> (Some (Errorf_w ''rename artifact: '' e), w3)
                     | (None, w3) \<Rightarrow> (None, w3))
                  else (None, w2)) \<and>
               (\<forall>c w'. runBuild_collect S path ap w = (None, w') \<longrightarrow>
                  read_of (dsk w) out = Inr c \<longrightarrow> read_of (dsk w') ap = Inr c)))"
proof (intro conjI impI)
  assume "lpk_matches (dsk w) path = []"
  with findLatestLPK_latest [OF plain readable stats, of S]
  show "fst (runBuild_collect S path ap w) = Some (ErrorString ''no .lpk artifact produced'')"
    by (simp add: runBuild_collect_def)
next
  assume "lpk_matches (dsk w) path \<noteq> []"
  with findLatestLPK_latest [OF plain readable stats, of S]
  obtain out w2 where f: "findLatestLPK S path w = (Inr out, w2)" and d: "dsk w2 = dsk w"
    and o: "out \<in> set (lpk_matches (dsk w) path)"
    and mx: "\<forall>m \<in> set (lpk_matches (dsk w) path). mod_time (dsk w) m \<le> mod_time (dsk w) out"
    by blast
  have rb: "runBuild_collect S path ap w =
                 (if out \<noteq> ap then
                    (case os_Rename out ap w2 of
                       (Some e, w3) \<Rightarrow> (Some (Errorf_w ''rename artifact: '' e), w3)
                     | (None, w3) \<Rightarrow> (None, w3))
                  else (None, w2))"
    using f by (simp add: runBuild_collect_def)
  have rd: "\<forall>c w'. runBuild_collect S path ap w = (None, w') \<longrightarrow>
                  read_of (dsk w) out = Inr c \<longrightarrow> read_of (dsk w') ap = Inr c"
  proof (intro allI impI)
    fix c w'
    assume r: "runBuild_collect S path ap w = (None, w')" and c: "read_of (dsk w) out = Inr c"
    show "read_of (dsk w') ap = Inr c"
    proof (cases "out = ap")
      case True
      with r rb have "w' = w2" by simp
      with c d True show ?thesis by simp
    next
      case False
      with r rb have "os_Rename out ap w2 = (None, w')"
        by (auto split: prod.splits option.splits)
      then obtain d' where "rename_of (dsk w2) out ap = Inr d'" "dsk w' = d'"
        by (auto simp: os_Rename_def split: sum.splits)
      with rename_of_content [of "dsk w2" out ap d' c] c d show ?thesis by simp
    qed
  qed
  from f d o mx rb rd
  show "\<exists>out w2. findLatestLPK S path w = (Inr out, w2) \<and> dsk w2 = dsk w \<and>
               out \<in> set (lpk_matches (dsk w) path) \<and>
               (\<forall>m \<in> set (lpk_matches (dsk w) path). mod_time (dsk w) m \<le> mod_time (dsk w) out) \<and>
               runBuild_collect S path ap w =
                 (if out \<noteq> ap then
                    (case os_Rename out ap w2 of
                       (Some e, w3) \<Rightarrow> (Some (Errorf_w ''rename artifact: '' e), w3)
                     | (None, w3) \<Rightarrow> (None, w3))
                  else (None, w2)) \<and>
               (\<forall>c w'. runBuild_collect S path ap w = (None, w') \<longrightarrow>
                  read_of (dsk w) out = Inr c \<longrightarrow> read_of (dsk w') ap = Inr c)"
    by blast
qed

theorem runBuild_collect_latest_witness:
  "lpk_matches (dsk demo_lpks) ''/w'' = [''/w/new.lpk'', ''/w/old.lpk'', ''/w/pkg.lpk''] \<and>
   fst (findLatestLPK demo_sys ''/w'' demo_lpks) = Inr ''/w/new.lpk'' \<and>
   (\<exists>w'. runBuild_collect demo_sys ''/w'' ''/w/app.lpk'' demo_lpks = (None, w') \<and>
         read_of (dsk w') ''/w/app.lpk'' = Inr ''NEW'')"
proof -
  have plain: "\<not> hasMeta ''/w''" by code_simp
  have readable: "lpk_dir ''/w'' \<notin> faulty (dsk demo_lpks)" by code_simp
  have stats: "\<forall>m \<in> set (lpk_matches (dsk demo_lpks) ''/w''). \<not> isl (stat_of (dsk demo_lpks) m)"
    by code_simp
  have ne: "lpk_matches (dsk demo_lpks) ''/w'' \<noteq> []" by (simp add: demo_lpks_matches)
  from runBuild_collect_latest [OF plain readable stats, of demo_sys "''/w/app.lpk''"] ne
  obtain out w2 where f: "findLatestLPK demo_sys ''/w'' demo_lpks = (Inr out, w2)"
    and rd: "\<forall>c w'. runBuild_collect demo_sys ''/w'' ''/w/app.lpk'' demo_lpks = (None, w') \<longrightarrow>
                  read_of (dsk demo_lpks) out = Inr c \<longrightarrow> read_of (dsk w') ''/w/app.lpk'' = Inr c"
    by blast
  from f demo_lpks_find have out: "out = ''/w/new.lpk''" by simp
  have r: "runBuild_collect demo_sys ''/w'' ''/w/app.lpk'' demo_lpks =
             (None, snd (runBuild_collect demo_sys ''/w'' ''/w/app.lpk'' demo_lpks))"
    using demo_lpks_collect by (simp add: prod_eq_iff)
  from rd r demo_lpks_read out
  have "read_of (dsk (snd (runBuild_collect demo_sys ''/w'' ''/w/app.lpk'' demo_lpks))) ''/w/app.lpk'' =
          Inr ''NEW''"
    by blast
  with r demo_lpks_matches demo_lpks_find show ?thesis by blast
qed

end
